theory Spec2Isabelle
  imports Main "HOL-Library.Sublist"
begin

section \<open>The tokenizer of FSMLang (tokenizer.py)\<close>

text \<open>
  A shallow embedding of \<^verbatim>\<open>src/tokenizer.py\<close>. Python strings are modelled as
  \<^typ>\<open>string\<close>, one \<^typ>\<open>char\<close> per code point, so the model covers text whose code
  points are below 256. Python integers are \<^typ>\<open>int\<close>. Exceptions are values of the
  type \<open>error\<close>; a function that can raise returns a sum with the exception on the left.
  Matcher objects are mutable and are held by reference, so they live in a store that maps
  addresses to objects, and every function that can mutate a matcher returns the new store.
\<close>

subsection \<open>Token structures\<close>

record LineInfo =
  line_number :: int
  line_start :: int
  line_end :: "int option"

text \<open>The field \<^verbatim>\<open>value\<close> of the class is called \<open>text_value\<close> here.\<close>

record FloatingToken =
  token_id :: string
  text_value :: "string option"

text \<open>
  The class \<^verbatim>\<open>Token\<close> has the fields \<^verbatim>\<open>token\<close> and \<^verbatim>\<open>line_info\<close>; the first is
  called \<open>ftoken\<close> here, since \<^verbatim>\<open>Symbol\<close> has a field \<^verbatim>\<open>token\<close> too.
\<close>

record Token =
  ftoken :: FloatingToken
  line_info :: LineInfo

subsection \<open>Exceptions\<close>

text \<open>
  \<^verbatim>\<open>BadTokenException(line_number, line_position, line)\<close>,
  \<^verbatim>\<open>NoEndException(line_number, line_position)\<close>, and the \<^verbatim>\<open>ValueError\<close> of
  \<^verbatim>\<open>SymbolMatcher.__init__\<close>, which carries the offending line of its message.
\<close>

datatype error =
  BadTokenException int int string
| NoEndException int int
| ValueError string

subsection \<open>The string operations of Python that the tokenizer uses\<close>

text \<open>
  \<^verbatim>\<open>str.isspace\<close>, \<^verbatim>\<open>str.strip\<close> and the pattern \<^verbatim>\<open>\s\<close> of \<^verbatim>\<open>re\<close> agree on what a
  whitespace character is. Below 256 these are the code points 9 to 13, 28 to 32, 133
  and 160.
\<close>

definition isspace_char :: "char \<Rightarrow> bool" where
  "isspace_char c =
     (let n = (of_char c :: nat)
      in (9 \<le> n \<and> n \<le> 13) \<or> (28 \<le> n \<and> n \<le> 32) \<or> n = 133 \<or> n = 160)"

text \<open>\<^verbatim>\<open>x.isspace()\<close>: the string is not empty and all of its characters are whitespace.\<close>

definition isspace :: "string \<Rightarrow> bool" where
  "isspace x = (x \<noteq> [] \<and> list_all isspace_char x)"

text \<open>\<^verbatim>\<open>x.strip()\<close> removes the whitespace at both ends.\<close>

definition strip :: "string \<Rightarrow> string" where
  "strip x = rev (dropWhile isspace_char (rev (dropWhile isspace_char x)))"

text \<open>
  \<^verbatim>\<open>x.split(" ")\<close> cuts at every single space character: a string with \<open>k\<close> spaces
  gives \<open>k + 1\<close> pieces, some of which may be empty.
\<close>

fun split_on :: "char \<Rightarrow> string \<Rightarrow> string list" where
  "split_on sep [] = [[]]"
| "split_on sep (c # cs) =
     (if c = sep then [] # split_on sep cs
      else (c # hd (split_on sep cs)) # tl (split_on sep cs))"

text \<open>
  \<^verbatim>\<open>str.splitlines\<close> ends a line at a line feed, a carriage return, a carriage return
  followed by a line feed, and at the code points 11, 12, 28, 29, 30 and 133. The text
  after the last line boundary is a line of its own unless it is empty.
\<close>

definition is_linebreak :: "char \<Rightarrow> bool" where
  "is_linebreak c =
     (let n = (of_char c :: nat)
      in (10 \<le> n \<and> n \<le> 13) \<or> (28 \<le> n \<and> n \<le> 30) \<or> n = 133)"

fun splitlines_from :: "string \<Rightarrow> string \<Rightarrow> string list" where
  "splitlines_from cur [] = (if cur = [] then [] else [cur])"
| "splitlines_from cur [c] =
     (if is_linebreak c then [cur] else [cur @ [c]])"
| "splitlines_from cur (c # d # cs) =
     (if c = CHR 0x0D \<and> d = CHR 0x0A then cur # splitlines_from [] cs
      else if is_linebreak c then cur # splitlines_from [] (d # cs)
      else splitlines_from (cur @ [c]) (d # cs))"

definition splitlines :: "string \<Rightarrow> string list" where
  "splitlines s = splitlines_from [] s"

text \<open>\<^verbatim>\<open>stream.startswith(p)\<close>.\<close>

fun startswith :: "string \<Rightarrow> string \<Rightarrow> bool" where
  "startswith stream [] = True"
| "startswith [] (p # ps) = False"
| "startswith (c # cs) (p # ps) = (c = p \<and> startswith cs ps)"

text \<open>
  \<^verbatim>\<open>sub in stream\<close> and \<^verbatim>\<open>stream.index(sub)\<close>: the index of the first occurrence of
  \<open>sub\<close>, if there is one.
\<close>

fun find_index :: "string \<Rightarrow> string \<Rightarrow> nat option" where
  "find_index [] sub = (if sub = [] then Some 0 else None)"
| "find_index (c # cs) sub =
     (if startswith (c # cs) sub then Some 0 else map_option Suc (find_index cs sub))"

text \<open>
  \<^verbatim>\<open>line[i:]\<close>. A negative index counts from the end of the string, and an index outside
  the string is clamped.
\<close>

definition slice_from :: "string \<Rightarrow> int \<Rightarrow> string" where
  "slice_from line i =
     (if i < 0 then drop (nat (int (length line) + i)) line else drop (nat i) line)"

text \<open>
  \<^verbatim>\<open>re.compile(r"^\s*").match(s).end(0)\<close>: the length of the run of whitespace at the
  start of \<open>s\<close>. The pattern matches every string.
\<close>

definition whitespace_end :: "string \<Rightarrow> int" where
  "whitespace_end s = int (length (takeWhile isspace_char s))"

subsection \<open>Symbols and the symbol matcher\<close>

record Symbol =
  symbol :: string
  token :: string

record SymbolMatcher =
  symbols :: "Symbol list"

text \<open>
  The list comprehension of \<^verbatim>\<open>SymbolMatcher.__init__\<close>:
  \<^verbatim>\<open>[x.strip() for x in line.strip().split(" ") if len(x) > 0 and not x.isspace()]\<close>.
\<close>

definition line_split :: "string \<Rightarrow> string list" where
  "line_split line =
     map strip (filter (\<lambda>x. length x > 0 \<and> \<not> isspace x) (split_on CHR '' '' (strip line)))"

text \<open>
  The loop over the lines of the specification. It raises \<^verbatim>\<open>ValueError\<close> at the first
  line whose split does not have two elements.
\<close>

fun add_lines :: "string list \<Rightarrow> Symbol list \<Rightarrow> error + Symbol list" where
  "add_lines [] syms = Inr syms"
| "add_lines (line # rest) syms =
     (let split = line_split line
      in if length split \<noteq> 2 then Inl (ValueError line)
         else add_lines rest (syms @ [\<lparr>symbol = split ! 0, token = split ! 1\<rparr>]))"

text \<open>
  \<^verbatim>\<open>SymbolMatcher.__init__(symbols=None)\<close>. The test \<^verbatim>\<open>if symbols:\<close> is false for
  \<^verbatim>\<open>None\<close> and for the empty string.
\<close>

definition SymbolMatcher_init :: "string option \<Rightarrow> error + SymbolMatcher" where
  "SymbolMatcher_init spec =
     (case spec of
        None \<Rightarrow> Inr \<lparr>symbols = []\<rparr>
      | Some s \<Rightarrow>
          if s = [] then Inr \<lparr>symbols = []\<rparr>
          else (case add_lines (splitlines s) [] of
                  Inl e \<Rightarrow> Inl e
                | Inr syms \<Rightarrow> Inr \<lparr>symbols = syms\<rparr>))"

text \<open>
  \<^verbatim>\<open>SymbolMatcher.match_token\<close>: the loop over \<^verbatim>\<open>self.symbols\<close>. The result is the pair
  of the token, or \<^verbatim>\<open>None\<close>, and the width.
\<close>

fun match_symbols :: "Symbol list \<Rightarrow> string \<Rightarrow> FloatingToken option \<times> int" where
  "match_symbols [] stream = (None, - 1)"
| "match_symbols (s # rest) stream =
     (if startswith stream (symbol s)
      then (Some \<lparr>token_id = token s, text_value = Some (symbol s)\<rparr>, int (length (symbol s)))
      else match_symbols rest stream)"

definition SymbolMatcher_match_token ::
  "SymbolMatcher \<Rightarrow> string \<Rightarrow> FloatingToken option \<times> int" where
  "SymbolMatcher_match_token self stream = match_symbols (symbols self) stream"

subsection \<open>The comment matcher\<close>

record CommentMatcher =
  is_multiline :: bool
  ml_start :: Symbol
  ml_end :: Symbol
  comment :: Symbol

definition CommentMatcher_init :: "Symbol \<Rightarrow> Symbol \<Rightarrow> Symbol \<Rightarrow> CommentMatcher" where
  "CommentMatcher_init multiline_start multiline_end cmt =
     \<lparr>is_multiline = False, ml_start = multiline_start, ml_end = multiline_end,
      comment = cmt\<rparr>"

text \<open>
  \<^verbatim>\<open>CommentMatcher.match_token\<close> assigns to \<^verbatim>\<open>self.is_multiline\<close>, so the model
  returns the matcher after the call next to the result.
\<close>

definition CommentMatcher_match_token ::
  "CommentMatcher \<Rightarrow> string \<Rightarrow> (FloatingToken option \<times> int) \<times> CommentMatcher" where
  "CommentMatcher_match_token self stream =
     (if is_multiline self then
        (case find_index stream (symbol (ml_end self)) of
           Some comment_end \<Rightarrow>
             ((Some \<lparr>token_id = token (ml_end self), text_value = None\<rparr>,
               int comment_end + 2),
              self\<lparr>is_multiline := False\<rparr>)
         | None \<Rightarrow>
             ((Some \<lparr>token_id = token (ml_end self), text_value = None\<rparr>,
               int (length stream)),
              self))
      else if startswith stream (symbol (comment self)) then
        ((Some \<lparr>token_id = token (comment self), text_value = None\<rparr>, int (length stream)),
         self)
      else if startswith stream (symbol (ml_start self)) then
        ((Some \<lparr>token_id = token (ml_start self), text_value = None\<rparr>,
          int (length (token (ml_start self)))),
         self\<lparr>is_multiline := True\<rparr>)
      else ((None, - 1), self))"

text \<open>
  \<^verbatim>\<open>CommentMatcher.end_matching\<close>: the loop over \<^verbatim>\<open>tokens[::-1]\<close>, then the method.
\<close>

fun find_open :: "string \<Rightarrow> Token list \<Rightarrow> error + unit" where
  "find_open kind [] = Inr ()"
| "find_open kind (t # ts) =
     (if token_id (ftoken t) = kind
      then Inl (NoEndException (line_number (line_info t)) (line_start (line_info t)))
      else find_open kind ts)"

definition CommentMatcher_end_matching :: "CommentMatcher \<Rightarrow> Token list \<Rightarrow> error + unit" where
  "CommentMatcher_end_matching self tokens =
     (if is_multiline self then find_open (token (ml_start self)) (rev tokens) else Inr ())"

subsection \<open>Matchers as objects\<close>

text \<open>
  The two concrete subclasses of \<^verbatim>\<open>TokenMatcher\<close>. The base class is abstract (its
  \<^verbatim>\<open>match_token\<close> is \<^verbatim>\<open>pass\<close>) and is not a matcher of its own here. A method call
  on a matcher dispatches on the class of the object.
\<close>

datatype TokenMatcher =
  IsSymbolMatcher SymbolMatcher
| IsCommentMatcher CommentMatcher

fun TokenMatcher_match_token ::
  "TokenMatcher \<Rightarrow> string \<Rightarrow> (FloatingToken option \<times> int) \<times> TokenMatcher" where
  "TokenMatcher_match_token (IsSymbolMatcher m) stream =
     (SymbolMatcher_match_token m stream, IsSymbolMatcher m)"
| "TokenMatcher_match_token (IsCommentMatcher m) stream =
     (case CommentMatcher_match_token m stream of (r, m') \<Rightarrow> (r, IsCommentMatcher m'))"

text \<open>\<^verbatim>\<open>SymbolMatcher\<close> inherits the \<^verbatim>\<open>end_matching\<close> of the base class, which returns.\<close>

fun TokenMatcher_end_matching :: "TokenMatcher \<Rightarrow> Token list \<Rightarrow> error + unit" where
  "TokenMatcher_end_matching (IsSymbolMatcher m) tokens = Inr ()"
| "TokenMatcher_end_matching (IsCommentMatcher m) tokens = CommentMatcher_end_matching m tokens"

subsection \<open>The program state\<close>

text \<open>
  \<^verbatim>\<open>matchers: List[TokenMatcher] = []\<close> is a statement of the class body of
  \<^verbatim>\<open>FloatingTokenizer\<close>: it creates one list when the class is defined. The class has no
  \<^verbatim>\<open>__init__\<close> and no method assigns to \<^verbatim>\<open>self.matchers\<close>, so no instance ever gets
  an attribute \<^verbatim>\<open>matchers\<close> of its own, and \<^verbatim>\<open>self.matchers\<close> is the list of the class
  for every instance. The state therefore holds that one list (of references to matcher
  objects), the store of the matcher objects, and the number of tokenizer objects created
  so far, which gives every new object its identity.
\<close>

type_synonym addr = nat

record world =
  FloatingTokenizer_matchers :: "addr list"
  objs :: "addr \<Rightarrow> TokenMatcher"
  instances :: nat

text \<open>An instance of \<^verbatim>\<open>FloatingTokenizer\<close> has no attributes; it is its identity.\<close>

datatype FloatingTokenizer = FloatingTokenizer_at nat

text \<open>
  An instance of \<^verbatim>\<open>Tokenizer\<close> has the attribute \<^verbatim>\<open>tokenizer\<close>; its
  \<^verbatim>\<open>whitespace_matcher\<close> is the same compiled pattern for every instance.
\<close>

record Tokenizer =
  tokenizer :: FloatingTokenizer

text \<open>The state when the module has been loaded: the list of the class is empty.\<close>

definition module_loaded :: "(addr \<Rightarrow> TokenMatcher) \<Rightarrow> world" where
  "module_loaded store = \<lparr>FloatingTokenizer_matchers = [], objs = store, instances = 0\<rparr>"

text \<open>\<^verbatim>\<open>FloatingTokenizer()\<close> creates an object and runs no code of the class.\<close>

definition FloatingTokenizer_new :: "world \<Rightarrow> FloatingTokenizer \<times> world" where
  "FloatingTokenizer_new w =
     (FloatingTokenizer_at (instances w), w\<lparr>instances := instances w + 1\<rparr>)"

text \<open>The attribute lookup \<^verbatim>\<open>self.matchers\<close> on an instance of \<^verbatim>\<open>FloatingTokenizer\<close>.\<close>

definition matchers :: "FloatingTokenizer \<Rightarrow> world \<Rightarrow> addr list" where
  "matchers self w = FloatingTokenizer_matchers w"

text \<open>
  \<^verbatim>\<open>FloatingTokenizer.add_matcher\<close>: \<^verbatim>\<open>self.matchers.append(matcher)\<close> changes the list
  that the lookup finds, in place.
\<close>

definition FloatingTokenizer_add_matcher ::
  "FloatingTokenizer \<Rightarrow> addr \<Rightarrow> world \<Rightarrow> world" where
  "FloatingTokenizer_add_matcher self matcher w =
     w\<lparr>FloatingTokenizer_matchers := matchers self w @ [matcher]\<rparr>"

text \<open>\<^verbatim>\<open>Tokenizer.__init__\<close> and \<^verbatim>\<open>Tokenizer.add_matcher\<close>.\<close>

definition Tokenizer_init :: "world \<Rightarrow> Tokenizer \<times> world" where
  "Tokenizer_init w =
     (case FloatingTokenizer_new w of (ft, w') \<Rightarrow> (\<lparr>tokenizer = ft\<rparr>, w'))"

definition Tokenizer_add_matcher :: "Tokenizer \<Rightarrow> addr \<Rightarrow> world \<Rightarrow> world" where
  "Tokenizer_add_matcher self matcher w =
     FloatingTokenizer_add_matcher (tokenizer self) matcher w"

subsection \<open>The dispatcher\<close>

text \<open>
  \<^verbatim>\<open>FloatingTokenizer.match_token\<close>: the loop over the matchers. Every matcher that is
  tried may change, so the store is passed along. \<^verbatim>\<open>if match:\<close> holds for every
  \<^verbatim>\<open>FloatingToken\<close>, since the class defines neither \<^verbatim>\<open>__bool__\<close> nor \<^verbatim>\<open>__len__\<close>.
\<close>

fun match_first ::
  "addr list \<Rightarrow> (addr \<Rightarrow> TokenMatcher) \<Rightarrow> string \<Rightarrow>
     (FloatingToken option \<times> int) \<times> (addr \<Rightarrow> TokenMatcher)" where
  "match_first [] store stream = ((None, - 1), store)"
| "match_first (i # rest) store stream =
     (case TokenMatcher_match_token (store i) stream of
        ((Some match, width), m) \<Rightarrow> ((Some match, width), store(i := m))
      | ((None, width), m) \<Rightarrow> match_first rest (store(i := m)) stream)"

definition FloatingTokenizer_match_token ::
  "FloatingTokenizer \<Rightarrow> string \<Rightarrow> world \<Rightarrow> (FloatingToken option \<times> int) \<times> world" where
  "FloatingTokenizer_match_token self stream w =
     (case match_first (matchers self w) (objs w) stream of
        (r, store) \<Rightarrow> (r, w\<lparr>objs := store\<rparr>))"

subsection \<open>The scanner\<close>

text \<open>
  The state of the \<^verbatim>\<open>while\<close> loop of \<^verbatim>\<open>Tokenizer.match_tokens\<close>: \<^verbatim>\<open>line_pos\<close>, the
  program state and \<^verbatim>\<open>output\<close>. One run of the loop body ends in \<^verbatim>\<open>break\<close>, in
  \<^verbatim>\<open>raise\<close>, or at the end of the body.
\<close>

type_synonym loop_state = "int \<times> world \<times> Token list"

datatype flow = Break loop_state | Raise error | Next loop_state

definition loop_body :: "Tokenizer \<Rightarrow> int \<Rightarrow> string \<Rightarrow> loop_state \<Rightarrow> flow" where
  "loop_body self line_no line st =
     (case st of (line_pos, w, output) \<Rightarrow>
        (let line_pos1 = line_pos + whitespace_end (slice_from line line_pos)
         in if line_pos1 = int (length line) then Break (line_pos1, w, output)
            else (case FloatingTokenizer_match_token (tokenizer self)
                         (slice_from line line_pos1) w of
                    ((None, width), w') \<Rightarrow> Raise (BadTokenException line_no line_pos1 line)
                  | ((Some tok, width), w') \<Rightarrow>
                      Next (line_pos1 + width, w',
                            output @ [\<lparr>ftoken = tok,
                                       line_info = \<lparr>line_number = line_no,
                                                    line_start = line_pos1,
                                                    line_end = Some (line_pos1 + width)\<rparr>\<rparr>]))))"

text \<open>
  The \<^verbatim>\<open>while\<close> loop. A matcher may return the width 0, and then the loop need not
  end: the result \<open>None\<close> stands for a loop that runs forever.
\<close>

partial_function (option) while_loop ::
  "Tokenizer \<Rightarrow> int \<Rightarrow> string \<Rightarrow> loop_state \<Rightarrow> (error + loop_state) option" where
  "while_loop self line_no line st =
     (if fst st < int (length line) then
        (case loop_body self line_no line st of
           Break st' \<Rightarrow> Some (Inr st')
         | Raise e \<Rightarrow> Some (Inl e)
         | Next st' \<Rightarrow> while_loop self line_no line st')
      else Some (Inr st))"

text \<open>
  The \<^verbatim>\<open>for\<close> loop over \<^verbatim>\<open>enumerate(lines)\<close>; every line starts at \<^verbatim>\<open>line_pos = 0\<close>.
\<close>

fun for_lines ::
  "Tokenizer \<Rightarrow> int \<Rightarrow> string list \<Rightarrow> world \<Rightarrow> Token list \<Rightarrow>
     (error + world \<times> Token list) option" where
  "for_lines self line_no [] w output = Some (Inr (w, output))"
| "for_lines self line_no (line # rest) w output =
     (case while_loop self line_no line (0, w, output) of
        None \<Rightarrow> None
      | Some (Inl e) \<Rightarrow> Some (Inl e)
      | Some (Inr (line_pos, w', output')) \<Rightarrow> for_lines self (line_no + 1) rest w' output')"

text \<open>
  \<^verbatim>\<open>Tokenizer.match_tokens\<close>. On success the result is the program state after the scan
  and the returned list \<^verbatim>\<open>output\<close>.
\<close>

definition match_tokens ::
  "Tokenizer \<Rightarrow> string \<Rightarrow> world \<Rightarrow> (error + world \<times> Token list) option" where
  "match_tokens self stream w = for_lines self 0 (splitlines stream) w []"

subsection \<open>The fields of a line, in the words of the specification\<close>

text \<open>
  The specification of the bulk format speaks of fields separated by runs of whitespace.
  This second definition follows those words, to be compared with \<open>line_split\<close>, which
  follows the code: the fields of a line are its maximal runs of characters that are not
  whitespace.
\<close>

fun spec_fields_from :: "string \<Rightarrow> string \<Rightarrow> string list" where
  "spec_fields_from cur [] = (if cur = [] then [] else [cur])"
| "spec_fields_from cur (c # cs) =
     (if isspace_char c
      then (if cur = [] then spec_fields_from [] cs else cur # spec_fields_from [] cs)
      else spec_fields_from (cur @ [c]) cs)"

definition spec_fields :: "string \<Rightarrow> string list" where
  "spec_fields line = spec_fields_from [] line"

text \<open>
  A line is space separated when every run of whitespace that stands between two of its
  fields contains a space character. The scan of the line remembers whether it is before
  the first field or in a run that has a space (\<open>Safe\<close>), in a field (\<open>After_text\<close>), or
  in a run after a field that has had no space so far (\<open>Unspaced\<close>); a field that starts
  in the last state breaks the condition. Whitespace before the first field and after the
  last one is free.
\<close>

datatype gap = Safe | After_text | Unspaced

fun gaps_have_space :: "gap \<Rightarrow> string \<Rightarrow> bool" where
  "gaps_have_space g [] = True"
| "gaps_have_space g (c # cs) =
     (if c = CHR '' '' then gaps_have_space Safe cs
      else if isspace_char c then gaps_have_space (if g = Safe then Safe else Unspaced) cs
      else (g \<noteq> Unspaced \<and> gaps_have_space After_text cs))"

definition space_separated :: "string \<Rightarrow> bool" where
  "space_separated line = gaps_have_space Safe line"

subsection \<open>The states that the loop passes through\<close>

text \<open>
  The state at the head of the \<^verbatim>\<open>while\<close> loop after \<open>n\<close> complete runs of its body,
  if the loop gets that far: no run before has ended in \<^verbatim>\<open>break\<close> or \<^verbatim>\<open>raise\<close>, and
  the loop condition held before each of them.
\<close>

fun iterations :: "nat \<Rightarrow> Tokenizer \<Rightarrow> int \<Rightarrow> string \<Rightarrow> loop_state \<Rightarrow> loop_state option" where
  "iterations 0 self line_no line st = Some st"
| "iterations (Suc n) self line_no line st =
     (if fst st < int (length line) then
        (case loop_body self line_no line st of
           Break st' \<Rightarrow> None
         | Raise e \<Rightarrow> None
         | Next st' \<Rightarrow> iterations n self line_no line st')
      else None)"

text \<open>
  A token is emitted in a line, scanned from the state \<open>st\<close>, when some run of the loop
  body that the scan gets to appends it to the output.
\<close>

definition emitted_in_line :: "Tokenizer \<Rightarrow> int \<Rightarrow> string \<Rightarrow> loop_state \<Rightarrow> Token \<Rightarrow> bool" where
  "emitted_in_line self line_no line st t =
     (\<exists>n st' line_pos w'. iterations n self line_no line st = Some st' \<and>
        fst st' < int (length line) \<and>
        loop_body self line_no line st' = Next (line_pos, w', snd (snd st') @ [t]))"

subsection \<open>The configuration of the demonstration\<close>

text \<open>
  The comment matcher that the \<^verbatim>\<open>__main__\<close> block of the module builds, a scanner
  \<^verbatim>\<open>tokenizer\<close>, and the program state after \<^verbatim>\<open>tokenizer.add_matcher(comm_match)\<close>
  and the registration of a symbol matcher for \<^verbatim>\<open>;\<close>, with the comment matcher at
  address 0 and the symbol matcher at address 1.
\<close>

definition comm_match :: CommentMatcher where
  "comm_match =
     CommentMatcher_init \<lparr>symbol = ''/*'', token = ''MULTILINE_START''\<rparr>
       \<lparr>symbol = ''*/'', token = ''MULTILINE_END''\<rparr>
       \<lparr>symbol = ''//'', token = ''SINGLE_COMMENT''\<rparr>"

definition semicolon_match :: SymbolMatcher where
  "semicolon_match = \<lparr>symbols = [\<lparr>symbol = '';'', token = ''SYMB_SEMICOLON''\<rparr>]\<rparr>"

definition demo_store :: "addr \<Rightarrow> TokenMatcher" where
  "demo_store =
     (\<lambda>a. IsSymbolMatcher \<lparr>symbols = []\<rparr>)
       (0 := IsCommentMatcher comm_match, 1 := IsSymbolMatcher semicolon_match)"

definition demo_tokenizer :: Tokenizer where
  "demo_tokenizer = fst (Tokenizer_init (module_loaded demo_store))"

definition demo_world :: world where
  "demo_world =
     Tokenizer_add_matcher demo_tokenizer 1
       (Tokenizer_add_matcher demo_tokenizer 0 (snd (Tokenizer_init (module_loaded demo_store))))"

text \<open>A comment matcher whose end marker has three characters, inside a comment.\<close>

definition arrow_match :: CommentMatcher where
  "arrow_match =
     (CommentMatcher_init \<lparr>symbol = ''<!--'', token = ''OPEN''\<rparr>
        \<lparr>symbol = ''-->'', token = ''CLOSE''\<rparr>
        \<lparr>symbol = ''#'', token = ''LINE''\<rparr>)\<lparr>is_multiline := True\<rparr>"

text \<open>
  The three literals of the demonstration that start with \<^verbatim>\<open>!\<close>, in its order, in a
  symbol matcher, and the program state in which that matcher, at address 0, is the only
  registered one.
\<close>

definition bang_match :: SymbolMatcher where
  "bang_match =
     \<lparr>symbols = [\<lparr>symbol = ''!=='', token = ''SYMB_XOR''\<rparr>,
                 \<lparr>symbol = ''!='', token = ''SYMB_XOR''\<rparr>,
                 \<lparr>symbol = ''!'', token = ''SYMB_NOT''\<rparr>]\<rparr>"

definition bang_world :: world where
  "bang_world =
     Tokenizer_add_matcher demo_tokenizer 0
       (snd (Tokenizer_init (module_loaded (\<lambda>a. IsSymbolMatcher bang_match))))"

section \<open>Properties\<close>

subsection \<open>Auxiliary facts\<close>

lemma startswith_prefix: "startswith stream p = prefix p stream"
  by (induction stream p rule: startswith.induct) auto

lemmas scan_defs =
  match_tokens_def splitlines_def is_linebreak_def while_loop.simps loop_body_def
  slice_from_def whitespace_end_def isspace_char_def FloatingTokenizer_match_token_def
  matchers_def CommentMatcher_match_token_def CommentMatcher_init_def
  SymbolMatcher_match_token_def

lemmas demo_defs =
  demo_world_def demo_tokenizer_def demo_store_def comm_match_def semicolon_match_def
  module_loaded_def Tokenizer_init_def FloatingTokenizer_new_def Tokenizer_add_matcher_def
  FloatingTokenizer_add_matcher_def

lemma find_open_returns:
  "(find_open kind ts = Inr ()) = (\<forall>t \<in> set ts. token_id (ftoken t) \<noteq> kind)"
  by (induction ts) auto

lemma find_open_raises:
  "find_open kind ts = Inl e \<Longrightarrow>
     \<exists>t \<in> set ts. token_id (ftoken t) = kind \<and>
       e = NoEndException (line_number (line_info t)) (line_start (line_info t))"
  by (induction ts) (auto split: if_splits)

lemma match_symbols_none:
  "(fst (match_symbols syms stream) = None) =
     (\<forall>s \<in> set syms. \<not> prefix (symbol s) stream)"
  by (induction syms) (auto simp: startswith_prefix)

lemma match_symbols_some:
  "match_symbols syms stream = (Some ft, width) \<Longrightarrow>
     \<exists>i < length syms. prefix (symbol (syms ! i)) stream \<and>
        (\<forall>j < i. \<not> prefix (symbol (syms ! j)) stream) \<and>
        ft = \<lparr>token_id = token (syms ! i), text_value = Some (symbol (syms ! i))\<rparr> \<and>
        width = int (length (symbol (syms ! i)))"
proof (induction syms)
  case Nil
  then show ?case by simp
next
  case (Cons s syms)
  show ?case
  proof (cases "prefix (symbol s) stream")
    case True
    with Cons.prems have "ft = \<lparr>token_id = token s, text_value = Some (symbol s)\<rparr>"
      and "width = int (length (symbol s))"
      by (auto simp: startswith_prefix)
    with True show ?thesis by (intro exI [of _ 0]) simp
  next
    case False
    with Cons.prems have "match_symbols syms stream = (Some ft, width)"
      by (simp add: startswith_prefix)
    from Cons.IH [OF this] obtain i where i: "i < length syms"
      "prefix (symbol (syms ! i)) stream" "\<forall>j < i. \<not> prefix (symbol (syms ! j)) stream"
      "ft = \<lparr>token_id = token (syms ! i), text_value = Some (symbol (syms ! i))\<rparr>"
      "width = int (length (symbol (syms ! i)))"
      by blast
    have "\<forall>j < Suc i. \<not> prefix (symbol ((s # syms) ! j)) stream"
      using False i(3) by (auto simp: less_Suc_eq_0_disj)
    with i show ?thesis by (intro exI [of _ "Suc i"]) simp
  qed
qed

lemma loop_body_Raise:
  "loop_body self line_no line st = Raise e \<Longrightarrow> \<exists>c. e = BadTokenException line_no c line"
  by (cases st) (auto simp: loop_body_def Let_def split: if_splits prod.splits option.splits)

lemma while_loop_raises:
  "while_loop self line_no line st = Some r \<Longrightarrow> r \<noteq> Inl (NoEndException l p)"
proof (induction rule: while_loop.raw_induct [rotated 1, consumes 1, case_names body])
  case (body while_loop' self line_no line st r)
  show ?case
  proof (cases "fst st < int (length line)")
    case False
    with body(2) show ?thesis by auto
  next
    case True
    show ?thesis
    proof (cases "loop_body self line_no line st")
      case (Break st')
      with body(2) True show ?thesis by auto
    next
      case (Raise e)
      with body(2) True loop_body_Raise [OF Raise] show ?thesis by auto
    next
      case (Next st1)
      with body(2) True have "while_loop' self line_no line st1 = Some r" by simp
      then show ?thesis by (rule body(1))
    qed
  qed
qed

lemma for_lines_raises:
  "for_lines self k ls w out \<noteq> Some (Inl (NoEndException l p))"
proof (induction ls arbitrary: k w out)
  case Nil
  then show ?case by simp
next
  case (Cons line ls)
  show ?case
  proof (cases "while_loop self k line (0, w, out)")
    case None
    then show ?thesis by simp
  next
    case (Some r)
    from while_loop_raises [OF Some] have "r \<noteq> Inl (NoEndException l p)" .
    with Some Cons.IH show ?thesis
      by (cases r) (auto split: prod.splits)
  qed
qed

subsection \<open>The scan and the end of the stream\<close>

text \<open>
  C1. The claim: a scan that ends inside a multi-line comment calls \<^verbatim>\<open>end_matching\<close>
  after the last line and raises \<^verbatim>\<open>NoEndException\<close> with the position of the opening
  marker. The code: \<^verbatim>\<open>match_tokens\<close> never calls \<^verbatim>\<open>end_matching\<close>. On the two lines
  \<^verbatim>\<open>/* a\<close> and \<^verbatim>\<open>b\<close> the scan of the demonstration's tokenizer returns two tokens and
  leaves the comment matcher inside the comment; \<^verbatim>\<open>end_matching\<close> of that matcher on the
  returned tokens would raise \<^verbatim>\<open>NoEndException(0, 0)\<close>. And no scan, of any input with
  any matchers, raises \<^verbatim>\<open>NoEndException\<close>.
\<close>

theorem scan_returns_with_open_comment:
  "match_tokens demo_tokenizer (''/* a'' @ [CHR 0x0A] @ ''b'') demo_world =
     Some (Inr (demo_world\<lparr>objs :=
                   (objs demo_world)(0 := IsCommentMatcher (comm_match\<lparr>is_multiline := True\<rparr>))\<rparr>,
                [\<lparr>ftoken = \<lparr>token_id = ''MULTILINE_START'', text_value = None\<rparr>,
                  line_info = \<lparr>line_number = 0, line_start = 0, line_end = Some 15\<rparr>\<rparr>,
                 \<lparr>ftoken = \<lparr>token_id = ''MULTILINE_END'', text_value = None\<rparr>,
                  line_info = \<lparr>line_number = 1, line_start = 0, line_end = Some 1\<rparr>\<rparr>]))
   \<and> CommentMatcher_end_matching (comm_match\<lparr>is_multiline := True\<rparr>)
        [\<lparr>ftoken = \<lparr>token_id = ''MULTILINE_START'', text_value = None\<rparr>,
          line_info = \<lparr>line_number = 0, line_start = 0, line_end = Some 15\<rparr>\<rparr>,
         \<lparr>ftoken = \<lparr>token_id = ''MULTILINE_END'', text_value = None\<rparr>,
          line_info = \<lparr>line_number = 1, line_start = 0, line_end = Some 1\<rparr>\<rparr>]
       = Inl (NoEndException 0 0)
   \<and> match_tokens self stream w \<noteq> Some (Inl (NoEndException l p))"
proof (intro conjI)
  show "match_tokens demo_tokenizer (''/* a'' @ [CHR 0x0A] @ ''b'') demo_world =
     Some (Inr (demo_world\<lparr>objs :=
                   (objs demo_world)(0 := IsCommentMatcher (comm_match\<lparr>is_multiline := True\<rparr>))\<rparr>,
                [\<lparr>ftoken = \<lparr>token_id = ''MULTILINE_START'', text_value = None\<rparr>,
                  line_info = \<lparr>line_number = 0, line_start = 0, line_end = Some 15\<rparr>\<rparr>,
                 \<lparr>ftoken = \<lparr>token_id = ''MULTILINE_END'', text_value = None\<rparr>,
                  line_info = \<lparr>line_number = 1, line_start = 0, line_end = Some 1\<rparr>\<rparr>]))"
    by (simp add: scan_defs demo_defs)
  show "CommentMatcher_end_matching (comm_match\<lparr>is_multiline := True\<rparr>)
        [\<lparr>ftoken = \<lparr>token_id = ''MULTILINE_START'', text_value = None\<rparr>,
          line_info = \<lparr>line_number = 0, line_start = 0, line_end = Some 15\<rparr>\<rparr>,
         \<lparr>ftoken = \<lparr>token_id = ''MULTILINE_END'', text_value = None\<rparr>,
          line_info = \<lparr>line_number = 1, line_start = 0, line_end = Some 1\<rparr>\<rparr>]
       = Inl (NoEndException 0 0)"
    by (simp add: comm_match_def CommentMatcher_init_def CommentMatcher_end_matching_def)
  show "match_tokens self stream w \<noteq> Some (Inl (NoEndException l p))"
    unfolding match_tokens_def by (rule for_lines_raises)
qed

subsection \<open>The registry of a scanner\<close>

text \<open>
  C2. The claim: the registries of two scanners are independent and start empty. The
  code: both scanners read the one list of the class. After the module is loaded, create
  \<open>t1\<close> and \<open>t2\<close> and add a matcher \<open>m\<close> to \<open>t1\<close>: the registry of \<open>t2\<close>, empty before,
  holds \<open>m\<close>, and so does the registry of a scanner \<open>t3\<close> created afterwards.
\<close>

theorem registry_shared_between_instances:
  "(case Tokenizer_init (module_loaded store) of (t1, w1) \<Rightarrow>
      case Tokenizer_init w1 of (t2, w2) \<Rightarrow>
        case Tokenizer_init (Tokenizer_add_matcher t1 m w2) of (t3, w3) \<Rightarrow>
          t1 \<noteq> t2
          \<and> matchers (tokenizer t2) w2 = []
          \<and> matchers (tokenizer t2) (Tokenizer_add_matcher t1 m w2) = [m]
          \<and> matchers (tokenizer t3) w3 = [m])"
  by (simp add: module_loaded_def Tokenizer_init_def FloatingTokenizer_new_def
      Tokenizer_add_matcher_def FloatingTokenizer_add_matcher_def matchers_def)

subsection \<open>The comment matcher\<close>

text \<open>
  C3. The claim: at a multi-line start marker the width of the match is the length of the
  start marker. The code returns \<^verbatim>\<open>len(self.ml_start.token)\<close>, the length of the name of
  the kind: for the matcher of the demonstration, not inside a comment, on \<^verbatim>\<open>/* x\<close>, the
  flag is set and the kind is the kind of the start marker, but the width is 15, the length
  of \<^verbatim>\<open>MULTILINE_START\<close>, where the marker \<^verbatim>\<open>/*\<close> has length 2.
\<close>

theorem multiline_start_width_is_kind_length:
  "\<not> is_multiline comm_match
   \<and> startswith ''/* x'' (symbol (ml_start comm_match))
   \<and> \<not> startswith ''/* x'' (symbol (comment comm_match))
   \<and> CommentMatcher_match_token comm_match ''/* x'' =
       ((Some \<lparr>token_id = token (ml_start comm_match), text_value = None\<rparr>, 15),
        comm_match\<lparr>is_multiline := True\<rparr>)
   \<and> int (length (symbol (ml_start comm_match))) = 2"
  by (simp add: CommentMatcher_match_token_def comm_match_def CommentMatcher_init_def)

text \<open>
  C4. The claim: with the comment matcher before a symbol matcher for \<^verbatim>\<open>;\<close>, the line
  \<^verbatim>\<open>/* x */ ;\<close> gives three tokens. The code, with the matchers of the demonstration,
  returns one token: the start marker is given the width 15, which moves the cursor past
  the end of the line of 9 characters.
\<close>

theorem same_line_comment_one_token:
  "match_tokens demo_tokenizer ''/* x */ ;'' demo_world =
     Some (Inr (demo_world\<lparr>objs :=
                   (objs demo_world)(0 := IsCommentMatcher (comm_match\<lparr>is_multiline := True\<rparr>))\<rparr>,
                [\<lparr>ftoken = \<lparr>token_id = ''MULTILINE_START'', text_value = None\<rparr>,
                  line_info = \<lparr>line_number = 0, line_start = 0, line_end = Some 15\<rparr>\<rparr>]))"
  by (simp add: scan_defs demo_defs)

text \<open>
  C5. The claim: inside a comment, when the end marker occurs, the width is the index of
  its first occurrence plus the length of the end marker. The code adds the constant 2:
  with the end marker \<^verbatim>\<open>-->\<close>, of length 3, found at index 1 of \<^verbatim>\<open>x-->y\<close>, the width
  is 3 and not 4.
\<close>

theorem multiline_end_width_adds_two:
  "is_multiline arrow_match
   \<and> find_index ''x-->y'' (symbol (ml_end arrow_match)) = Some 1
   \<and> length (symbol (ml_end arrow_match)) = 3
   \<and> CommentMatcher_match_token arrow_match ''x-->y'' =
       ((Some \<lparr>token_id = token (ml_end arrow_match), text_value = None\<rparr>, 3),
        arrow_match\<lparr>is_multiline := False\<rparr>)"
  by (simp add: CommentMatcher_match_token_def arrow_match_def CommentMatcher_init_def)

text \<open>
  C10. \<^verbatim>\<open>CommentMatcher.end_matching\<close> raises exactly when the matcher is inside a
  comment and some token of the sequence has the kind of the start marker; what it raises
  is \<^verbatim>\<open>NoEndException\<close> with the line and start of such a token; and when the matcher is
  inside a comment and no token has that kind, it returns.
\<close>

theorem end_matching_raises_only_with_open_token:
  "((\<exists>e. CommentMatcher_end_matching self tokens = Inl e) =
      (is_multiline self \<and>
       (\<exists>t \<in> set tokens. token_id (ftoken t) = token (ml_start self))))
   \<and> (\<forall>e. CommentMatcher_end_matching self tokens = Inl e \<longrightarrow>
         (\<exists>t \<in> set tokens. token_id (ftoken t) = token (ml_start self) \<and>
            e = NoEndException (line_number (line_info t)) (line_start (line_info t))))
   \<and> (is_multiline self \<and> (\<forall>t \<in> set tokens. token_id (ftoken t) \<noteq> token (ml_start self))
        \<longrightarrow> CommentMatcher_end_matching self tokens = Inr ())"
proof -
  let ?k = "token (ml_start self)"
  have ret: "(find_open ?k (rev tokens) = Inr ()) =
      (\<forall>t \<in> set tokens. token_id (ftoken t) \<noteq> ?k)"
    by (simp add: find_open_returns)
  have sum: "\<And>r :: error + unit. (\<exists>e. r = Inl e) = (r \<noteq> Inr ())"
    by (case_tac r) auto
  have a: "(\<exists>e. CommentMatcher_end_matching self tokens = Inl e) =
      (is_multiline self \<and> (\<exists>t \<in> set tokens. token_id (ftoken t) = ?k))"
    unfolding sum using ret by (auto simp: CommentMatcher_end_matching_def)
  have b: "\<forall>e. CommentMatcher_end_matching self tokens = Inl e \<longrightarrow>
         (\<exists>t \<in> set tokens. token_id (ftoken t) = ?k \<and>
            e = NoEndException (line_number (line_info t)) (line_start (line_info t)))"
    using find_open_raises [of ?k "rev tokens"]
    by (auto simp: CommentMatcher_end_matching_def split: if_splits)
  have c: "is_multiline self \<and> (\<forall>t \<in> set tokens. token_id (ftoken t) \<noteq> ?k)
        \<longrightarrow> CommentMatcher_end_matching self tokens = Inr ()"
    using ret by (simp add: CommentMatcher_end_matching_def)
  from a b c show ?thesis by blast
qed

theorem end_matching_raises_only_with_open_token_witness:
  "is_multiline (comm_match\<lparr>is_multiline := True\<rparr>)
   \<and> CommentMatcher_end_matching (comm_match\<lparr>is_multiline := True\<rparr>)
        [\<lparr>ftoken = \<lparr>token_id = ''MULTILINE_START'', text_value = None\<rparr>,
          line_info = \<lparr>line_number = 4, line_start = 3, line_end = Some 18\<rparr>\<rparr>]
       = Inl (NoEndException 4 3)
   \<and> CommentMatcher_end_matching (comm_match\<lparr>is_multiline := True\<rparr>)
        [\<lparr>ftoken = \<lparr>token_id = ''SYMB_SEMICOLON'', text_value = Some '';''\<rparr>,
          line_info = \<lparr>line_number = 0, line_start = 0, line_end = Some 1\<rparr>\<rparr>]
       = Inr ()"
  using
    end_matching_raises_only_with_open_token [of "comm_match\<lparr>is_multiline := True\<rparr>"
      "[\<lparr>ftoken = \<lparr>token_id = ''MULTILINE_START'', text_value = None\<rparr>,
         line_info = \<lparr>line_number = 4, line_start = 3, line_end = Some 18\<rparr>\<rparr>]"]
    end_matching_raises_only_with_open_token [of "comm_match\<lparr>is_multiline := True\<rparr>"
      "[\<lparr>ftoken = \<lparr>token_id = ''SYMB_SEMICOLON'', text_value = Some '';''\<rparr>,
         line_info = \<lparr>line_number = 0, line_start = 0, line_end = Some 1\<rparr>\<rparr>]"]
  by (auto simp: comm_match_def CommentMatcher_init_def)

subsection \<open>The symbol matcher\<close>

text \<open>
  C7. \<^verbatim>\<open>SymbolMatcher.match_token\<close> returns the first pair of the list whose literal is
  a prefix of the stream, with the length of that literal as the width, and returns no
  match exactly when no literal is a prefix. A scanner whose only matcher holds the literals
  \<^verbatim>\<open>!==\<close>, \<^verbatim>\<open>!=\<close> and \<^verbatim>\<open>!\<close> in that order returns, for the line \<^verbatim>\<open>!==\<close>, one token, of
  the kind of the first pair.
\<close>

theorem symbol_matcher_first_match:
  "(\<forall>ft width. SymbolMatcher_match_token self stream = (Some ft, width) \<longrightarrow>
      (\<exists>i < length (symbols self).
          prefix (symbol (symbols self ! i)) stream \<and>
          (\<forall>j < i. \<not> prefix (symbol (symbols self ! j)) stream) \<and>
          ft = \<lparr>token_id = token (symbols self ! i),
                text_value = Some (symbol (symbols self ! i))\<rparr> \<and>
          width = int (length (symbol (symbols self ! i)))))
   \<and> ((fst (SymbolMatcher_match_token self stream) = None) =
        (\<forall>s \<in> set (symbols self). \<not> prefix (symbol s) stream))
   \<and> (matchers (tokenizer t) w = [a] \<and>
       objs w a = IsSymbolMatcher \<lparr>symbols = [\<lparr>symbol = ''!=='', token = k1\<rparr>,
           \<lparr>symbol = ''!='', token = k2\<rparr>, \<lparr>symbol = ''!'', token = k3\<rparr>]\<rparr> \<longrightarrow>
       match_tokens t ''!=='' w =
         Some (Inr (w, [\<lparr>ftoken = \<lparr>token_id = k1, text_value = Some ''!==''\<rparr>,
                         line_info = \<lparr>line_number = 0, line_start = 0,
                                      line_end = Some 3\<rparr>\<rparr>])))"
proof (intro conjI allI impI)
  fix ft width
  assume "SymbolMatcher_match_token self stream = (Some ft, width)"
  then show "\<exists>i < length (symbols self).
          prefix (symbol (symbols self ! i)) stream \<and>
          (\<forall>j < i. \<not> prefix (symbol (symbols self ! j)) stream) \<and>
          ft = \<lparr>token_id = token (symbols self ! i),
                text_value = Some (symbol (symbols self ! i))\<rparr> \<and>
          width = int (length (symbol (symbols self ! i)))"
    unfolding SymbolMatcher_match_token_def by (rule match_symbols_some)
next
  show "(fst (SymbolMatcher_match_token self stream) = None) =
        (\<forall>s \<in> set (symbols self). \<not> prefix (symbol s) stream)"
    unfolding SymbolMatcher_match_token_def by (rule match_symbols_none)
next
  assume "matchers (tokenizer t) w = [a] \<and>
       objs w a = IsSymbolMatcher \<lparr>symbols = [\<lparr>symbol = ''!=='', token = k1\<rparr>,
           \<lparr>symbol = ''!='', token = k2\<rparr>, \<lparr>symbol = ''!'', token = k3\<rparr>]\<rparr>"
  then show "match_tokens t ''!=='' w =
         Some (Inr (w, [\<lparr>ftoken = \<lparr>token_id = k1, text_value = Some ''!==''\<rparr>,
                         line_info = \<lparr>line_number = 0, line_start = 0,
                                      line_end = Some 3\<rparr>\<rparr>]))"
    by (simp add: scan_defs fun_upd_idem)
qed

theorem symbol_matcher_first_match_witness:
  "SymbolMatcher_match_token bang_match ''!=x'' =
     (Some \<lparr>token_id = ''SYMB_XOR'', text_value = Some ''!=''\<rparr>, 2)
   \<and> \<not> prefix ''!=='' ''!=x'' \<and> prefix ''!='' ''!=x''
   \<and> fst (SymbolMatcher_match_token bang_match ''x'') = None
   \<and> matchers (tokenizer demo_tokenizer) bang_world = [0]
   \<and> objs bang_world 0 = IsSymbolMatcher bang_match
   \<and> match_tokens demo_tokenizer ''!=='' bang_world =
       Some (Inr (bang_world,
                  [\<lparr>ftoken = \<lparr>token_id = ''SYMB_XOR'', text_value = Some ''!==''\<rparr>,
                    line_info = \<lparr>line_number = 0, line_start = 0, line_end = Some 3\<rparr>\<rparr>]))"
  using
    symbol_matcher_first_match [of bang_match "''!=x''" demo_tokenizer bang_world 0
      "''SYMB_XOR''" "''SYMB_XOR''" "''SYMB_NOT''"]
    symbol_matcher_first_match [of bang_match "''x''" demo_tokenizer bang_world 0
      "''SYMB_XOR''" "''SYMB_XOR''" "''SYMB_NOT''"]
  by (simp add: bang_match_def bang_world_def demo_defs matchers_def
      SymbolMatcher_match_token_def)

subsection \<open>The construction of a symbol matcher\<close>

lemma split_on_not_Nil: "split_on c s \<noteq> []"
  by (induction s) auto

lemma split_on_eval:
  "split_on sep (c # cs) =
     (if c = sep then [] # split_on sep cs
      else (case split_on sep cs of [] \<Rightarrow> [[c]] | p # ps \<Rightarrow> (c # p) # ps))"
  using split_on_not_Nil [of sep cs] by (simp split: list.splits)

lemma split_on_no_sep: "c \<notin> set xs \<Longrightarrow>
    split_on c (xs @ ys) = (xs @ hd (split_on c ys)) # tl (split_on c ys)"
  by (induction xs) (auto simp: split_on_not_Nil)

lemma split_on_at_sep: "c \<notin> set xs \<Longrightarrow> split_on c (xs @ c # ys) = xs # split_on c ys"
  by (simp add: split_on_no_sep)

lemma split_on_whole: "c \<notin> set xs \<Longrightarrow> split_on c xs = [xs]"
  using split_on_no_sep [of c xs "[]"] by simp

lemma strip_core:
  assumes "list_all isspace_char a" and "list_all isspace_char b"
    and "core \<noteq> []" and "\<not> isspace_char (hd core)" and "\<not> isspace_char (last core)"
  shows "strip (a @ core @ b) = core"
proof -
  have "dropWhile isspace_char (a @ core @ b) = dropWhile isspace_char (core @ b)"
    using assms(1) by (simp add: dropWhile_append2 list_all_iff)
  also have "\<dots> = core @ b"
    using assms(3,4) by (cases core) auto
  finally have 1: "dropWhile isspace_char (a @ core @ b) = core @ b" .
  have "\<And>x. x \<in> set (rev b) \<Longrightarrow> isspace_char x"
    using assms(2) by (simp add: list_all_iff)
  then have "dropWhile isspace_char (rev b @ rev core) = dropWhile isspace_char (rev core)"
    by (rule dropWhile_append2)
  also have "\<dots> = rev core"
    using assms(3,5) by (cases "rev core") (auto simp: hd_rev)
  finally show ?thesis
    using 1 by (simp add: strip_def)
qed

lemma strip_blank:
  assumes "list_all isspace_char l"
  shows "strip l = []"
proof -
  have "dropWhile isspace_char l = []"
    using assms by (induction l) auto
  then show ?thesis by (simp only: strip_def dropWhile.simps rev.simps)
qed

lemma space_is_whitespace: "isspace_char CHR '' ''"
  by (simp add: isspace_char_def)

lemma keep_has_text:
  "x \<in> set xs \<Longrightarrow> \<not> isspace_char x \<Longrightarrow> length xs > 0 \<and> \<not> isspace xs"
  by (auto simp: isspace_def list_all_iff)

lemma line_split_blank: "list_all isspace_char l \<Longrightarrow> line_split l = []"
  by (simp add: line_split_def strip_blank)

lemma add_lines_eq:
  "add_lines ls syms =
     (case find (\<lambda>l. length (line_split l) \<noteq> 2) ls of
        Some l \<Rightarrow> Inl (ValueError l)
      | None \<Rightarrow> Inr (syms @ map (\<lambda>l. \<lparr>symbol = line_split l ! 0, token = line_split l ! 1\<rparr>) ls))"
  by (induction ls arbitrary: syms) (auto simp: Let_def split: option.splits)

lemma gaps_leading_whitespace:
  "list_all isspace_char a \<Longrightarrow> gaps_have_space Safe (a @ x) = gaps_have_space Safe x"
  by (induction a) auto

lemma gaps_text_after_text:
  "list_all (\<lambda>c. \<not> isspace_char c) f \<Longrightarrow>
     gaps_have_space After_text (f @ x) = gaps_have_space After_text x"
  by (induction f) (auto simp: space_is_whitespace)

lemma gaps_text:
  "list_all (\<lambda>c. \<not> isspace_char c) f \<Longrightarrow> f \<noteq> [] \<Longrightarrow>
     gaps_have_space g (f @ x) = (g \<noteq> Unspaced \<and> gaps_have_space After_text x)"
  by (cases f) (auto simp: space_is_whitespace gaps_text_after_text)

lemma gaps_unspaced_run:
  "list_all isspace_char r \<Longrightarrow> CHR '' '' \<notin> set r \<Longrightarrow>
     gaps_have_space Unspaced (r @ x) = gaps_have_space Unspaced x"
  by (induction r) auto

lemma gaps_run_needs_space:
  assumes "gaps_have_space After_text (r @ rest)" and "list_all isspace_char r" and "r \<noteq> []"
    and "rest \<noteq> []" and "\<not> isspace_char (hd rest)"
  shows "CHR '' '' \<in> set r"
proof (rule ccontr)
  assume no_space: "CHR '' '' \<notin> set r"
  obtain c r' where r: "r = c # r'" using assms(3) by (cases r) auto
  obtain d rest' where rest: "rest = d # rest'" using assms(4) by (cases rest) auto
  from r assms(2) no_space have "gaps_have_space After_text (r @ rest) =
      gaps_have_space Unspaced (r' @ rest)"
    by auto
  also have "\<dots> = gaps_have_space Unspaced rest"
    using r assms(2) no_space by (intro gaps_unspaced_run) simp_all
  also have "\<dots> = False"
    using rest assms(5) space_is_whitespace by auto
  finally show False using assms(1) by simp
qed

lemma gaps_safe_weakest: "gaps_have_space g x \<Longrightarrow> gaps_have_space Safe x"
proof (induction x arbitrary: g)
  case Nil
  then show ?case by simp
next
  case (Cons c x)
  then show ?case by (auto split: if_splits)
qed

lemma spec_fields_text:
  "list_all (\<lambda>c. \<not> isspace_char c) f \<Longrightarrow>
     spec_fields_from cur (f @ x) = spec_fields_from (cur @ f) x"
  by (induction f arbitrary: cur) auto

lemma spec_fields_leading_whitespace:
  "list_all isspace_char a \<Longrightarrow> spec_fields_from [] (a @ x) = spec_fields_from [] x"
  by (induction a) auto

lemma spec_fields_blank: "list_all isspace_char l \<Longrightarrow> spec_fields l = []"
  using spec_fields_leading_whitespace [of l "[]"] by (simp add: spec_fields_def)

lemma spec_fields_first:
  assumes "list_all isspace_char a" and "f \<noteq> []" and "list_all (\<lambda>c. \<not> isspace_char c) f"
    and "t = [] \<or> isspace_char (hd t)"
  shows "spec_fields (a @ f @ t) = f # spec_fields t"
proof -
  have "spec_fields (a @ f @ t) = spec_fields_from f t"
    using assms(1,3) spec_fields_leading_whitespace [of a "f @ t"] spec_fields_text [of f "[]" t]
    by (simp add: spec_fields_def)
  also have "\<dots> = f # spec_fields t"
    using assms(2,4) by (cases t) (auto simp: spec_fields_def)
  finally show ?thesis .
qed

lemma strip_leading: "list_all isspace_char pre \<Longrightarrow> strip (pre @ x) = strip x"
  by (simp add: strip_def dropWhile_append2 list_all_iff)

lemma split_on_hd_text:
  assumes "core \<noteq> []" and "\<not> isspace_char (hd core)"
  shows "hd (split_on CHR '' '' core) \<noteq> [] \<and> \<not> isspace_char (hd (hd (split_on CHR '' '' core)))"
  using assms space_is_whitespace by (cases core) auto

lemma fields_after_whitespace:
  assumes "core \<noteq> []" and "\<not> isspace_char (hd core)"
  shows "list_all isspace_char r \<Longrightarrow> list_all isspace_char pre \<Longrightarrow>
    map strip (filter (\<lambda>x. length x > 0 \<and> \<not> isspace x)
      ((pre @ hd (split_on CHR '' '' (r @ core))) # tl (split_on CHR '' '' (r @ core))))
    = map strip (filter (\<lambda>x. length x > 0 \<and> \<not> isspace x) (split_on CHR '' '' core))"
proof (induction r arbitrary: pre)
  case Nil
  let ?S = "split_on CHR '' '' core"
  from split_on_hd_text [OF assms] have hd_S: "hd ?S \<noteq> []" "\<not> isspace_char (hd (hd ?S))"
    by simp_all
  have S: "?S = hd ?S # tl ?S"
    by (simp add: split_on_not_Nil)
  have k1: "length (pre @ hd ?S) > 0 \<and> \<not> isspace (pre @ hd ?S)"
    using hd_S by (intro keep_has_text [of "hd (hd ?S)"]) simp_all
  have k2: "length (hd ?S) > 0 \<and> \<not> isspace (hd ?S)"
    using hd_S by (intro keep_has_text [of "hd (hd ?S)"]) simp_all
  have "map strip (filter (\<lambda>x. length x > 0 \<and> \<not> isspace x) ((pre @ hd ?S) # tl ?S)) =
      strip (hd ?S) # map strip (filter (\<lambda>x. length x > 0 \<and> \<not> isspace x) (tl ?S))"
    using k1 strip_leading [OF Nil(2)] by simp
  also have "\<dots> = map strip (filter (\<lambda>x. length x > 0 \<and> \<not> isspace x) (hd ?S # tl ?S))"
    using k2 by simp
  finally show ?case using S by simp
next
  case (Cons c r)
  let ?S = "split_on CHR '' '' (r @ core)"
  from Cons.prems have r: "list_all isspace_char r" and c: "isspace_char c"
    by simp_all
  show ?case
  proof (cases "c = CHR '' ''")
    case True
    have drop_pre: "\<not> (length pre > 0 \<and> \<not> isspace pre)"
      using Cons.prems(2) by (auto simp: isspace_def)
    have "?S = ([] @ hd ?S) # tl ?S"
      by (simp add: split_on_not_Nil)
    then have "map strip (filter (\<lambda>x. length x > 0 \<and> \<not> isspace x) ?S) =
        map strip (filter (\<lambda>x. length x > 0 \<and> \<not> isspace x) (split_on CHR '' '' core))"
      using Cons.IH [of "[]", OF r] by simp
    with True drop_pre show ?thesis by simp
  next
    case False
    have "list_all isspace_char (pre @ [c])"
      using Cons.prems(2) c by simp
    from Cons.IH [OF r this] False show ?thesis by simp
  qed
qed

lemma strip_ends:
  assumes "\<not> list_all isspace_char x"
  shows "\<exists>a core b. x = a @ core @ b \<and> list_all isspace_char a \<and> list_all isspace_char b \<and>
      core \<noteq> [] \<and> \<not> isspace_char (hd core) \<and> \<not> isspace_char (last core)"
proof -
  let ?a = "takeWhile isspace_char x"
  let ?y = "dropWhile isspace_char x"
  let ?b = "rev (takeWhile isspace_char (rev ?y))"
  let ?core = "rev (dropWhile isspace_char (rev ?y))"
  have y: "?y \<noteq> []" "\<not> isspace_char (hd ?y)"
    using assms hd_dropWhile [of isspace_char x] by (auto simp: list_all_iff)
  have "\<not> list_all isspace_char (rev ?y)"
    using y by (cases ?y) (auto simp: list_all_iff)
  then have core: "dropWhile isspace_char (rev ?y) \<noteq> []"
    "\<not> isspace_char (hd (dropWhile isspace_char (rev ?y)))"
    using hd_dropWhile [of isspace_char "rev ?y"] by (auto simp: list_all_iff)
  have y_eq: "?y = ?core @ ?b"
    by (metis rev_append rev_rev_ident takeWhile_dropWhile_id)
  have "hd ?core = hd ?y"
    using y_eq core(1) by (metis hd_append2 rev_is_Nil_conv)
  moreover have "last ?core = hd (dropWhile isspace_char (rev ?y))"
    using core(1) by (simp add: last_rev)
  moreover have "list_all isspace_char ?a" "list_all isspace_char ?b"
    by (auto simp: list_all_iff dest: set_takeWhileD)
  moreover have "x = ?a @ ?core @ ?b"
    using y_eq by (metis takeWhile_dropWhile_id)
  ultimately show ?thesis
    using y(2) core by (metis rev_is_Nil_conv)
qed

lemma first_field:
  assumes "\<not> list_all isspace_char x"
  shows "\<exists>a f t. x = a @ f @ t \<and> list_all isspace_char a \<and> f \<noteq> [] \<and>
      list_all (\<lambda>c. \<not> isspace_char c) f \<and> (t = [] \<or> isspace_char (hd t))"
proof -
  let ?a = "takeWhile isspace_char x"
  let ?u = "dropWhile isspace_char x"
  let ?f = "takeWhile (\<lambda>c. \<not> isspace_char c) ?u"
  let ?t = "dropWhile (\<lambda>c. \<not> isspace_char c) ?u"
  have u: "?u \<noteq> []" "\<not> isspace_char (hd ?u)"
    using assms hd_dropWhile [of isspace_char x] by (auto simp: list_all_iff)
  have f: "?f \<noteq> []"
    using u by (cases ?u) auto
  have t: "?t = [] \<or> isspace_char (hd ?t)"
    using hd_dropWhile [of "\<lambda>c. \<not> isspace_char c" ?u] by auto
  have "x = ?a @ ?f @ ?t"
    by simp
  moreover have "list_all isspace_char ?a" "list_all (\<lambda>c. \<not> isspace_char c) ?f"
    by (auto simp: list_all_iff dest: set_takeWhileD)
  ultimately show ?thesis using f t by blast
qed

lemma line_split_first:
  assumes a: "list_all isspace_char a"
    and f: "f \<noteq> []" "list_all (\<lambda>c. \<not> isspace_char c) f"
    and t: "t = [] \<or> isspace_char (hd t)"
    and gaps: "gaps_have_space After_text t"
  shows "line_split (a @ f @ t) = f # line_split t"
proof -
  have f_ends: "\<not> isspace_char (hd f)" "\<not> isspace_char (last f)"
    using f by (auto simp: list_all_iff)
  have f_no_space: "CHR '' '' \<notin> set f"
    using f(2) space_is_whitespace by (auto simp: list_all_iff)
  have f_kept: "\<And>w. length (f @ w) > 0 \<and> \<not> isspace (f @ w)"
    using f(1) f_ends(1) by (intro keep_has_text [of "hd f"]) simp_all
  show ?thesis
  proof (cases "list_all isspace_char t")
    case True
    have "strip (a @ f @ t) = f"
      using a True f(1) f_ends by (intro strip_core) simp_all
    moreover have "strip ([] @ f @ []) = f"
      using f(1) f_ends by (intro strip_core) simp_all
    ultimately show ?thesis
      using f_no_space f_kept [of "[]"] True
      by (simp add: line_split_def split_on_whole strip_blank)
  next
    case False
    from strip_ends [OF False] obtain r core b where parts: "t = r @ core @ b"
      "list_all isspace_char r" "list_all isspace_char b" "core \<noteq> []"
      "\<not> isspace_char (hd core)" "\<not> isspace_char (last core)"
      by blast
    have r_not_Nil: "r \<noteq> []"
    proof
      assume "r = []"
      with parts(1,4) have "hd t = hd core" by simp
      moreover from False have "t \<noteq> []" by auto
      ultimately show False using t parts(5) by simp
    qed
    have "gaps_have_space After_text (r @ (core @ b))"
      using gaps parts(1) by simp
    moreover have "core @ b \<noteq> []" "\<not> isspace_char (hd (core @ b))"
      using parts(4,5) by simp_all
    ultimately have "CHR '' '' \<in> set r"
      using parts(2) r_not_Nil by (intro gaps_run_needs_space [of r "core @ b"])
    then obtain w0 r1 where r: "r = w0 @ CHR '' '' # r1" "CHR '' '' \<notin> set w0"
      by (auto dest: split_list_first)
    have w0: "list_all isspace_char w0" and r1: "list_all isspace_char r1"
      using parts(2) r(1) by simp_all
    have "strip (a @ (f @ r @ core) @ b) = f @ r @ core"
      using a parts(3,4,6) f(1) f_ends(1) by (intro strip_core) (simp_all add: hd_append)
    then have whole: "strip (a @ f @ t) = f @ r @ core"
      using parts(1) by simp
    have "strip (r @ core @ b) = core"
      using parts(2-6) by (intro strip_core)
    then have tail: "strip t = core"
      using parts(1) by simp
    have "CHR '' '' \<notin> set (f @ w0)"
      using f_no_space r(2) by simp
    then have pieces: "split_on CHR '' '' (f @ r @ core) =
        (f @ w0) # split_on CHR '' '' (r1 @ core)"
      using split_on_at_sep [of "CHR '' ''" "f @ w0" "r1 @ core"] r(1) by simp
    have "strip ([] @ f @ w0) = f"
      using w0 f(1) f_ends by (intro strip_core) simp_all
    then have first: "strip (f @ w0) = f" by simp
    let ?S = "split_on CHR '' '' (r1 @ core)"
    have "?S = ([] @ hd ?S) # tl ?S"
      by (simp add: split_on_not_Nil)
    then have rest: "map strip (filter (\<lambda>x. length x > 0 \<and> \<not> isspace x) ?S) =
        map strip (filter (\<lambda>x. length x > 0 \<and> \<not> isspace x) (split_on CHR '' '' core))"
      using fields_after_whitespace [OF parts(4,5) r1, of "[]"] by simp
    show ?thesis
      using whole tail pieces first rest f_kept [of w0] by (simp add: line_split_def)
  qed
qed

lemma line_split_spec_fields:
  "space_separated line \<Longrightarrow> line_split line = spec_fields line"
proof (induction "length line" arbitrary: line rule: less_induct)
  case less
  show ?case
  proof (cases "list_all isspace_char line")
    case True
    then show ?thesis by (simp add: line_split_blank spec_fields_blank)
  next
    case False
    from first_field [OF False] obtain a f t where parts: "line = a @ f @ t"
      "list_all isspace_char a" "f \<noteq> []" "list_all (\<lambda>c. \<not> isspace_char c) f"
      "t = [] \<or> isspace_char (hd t)"
      by blast
    have "gaps_have_space Safe (a @ f @ t)"
      using less.prems parts(1) by (simp add: space_separated_def)
    then have gaps: "gaps_have_space After_text t"
      using parts(2-4) by (simp add: gaps_leading_whitespace gaps_text)
    then have "space_separated t"
      unfolding space_separated_def by (rule gaps_safe_weakest)
    moreover have "length t < length line"
      using parts(1,3) by simp
    ultimately have "line_split t = spec_fields t"
      by (rule less.hyps [rotated])
    then show ?thesis
      using parts line_split_first [OF parts(2-5) gaps] spec_fields_first [OF parts(2-5)]
      by simp
  qed
qed

lemma gaps_blank: "list_all isspace_char b \<Longrightarrow> gaps_have_space g b"
  by (induction b arbitrary: g) auto

lemma gaps_run_with_space:
  "list_all isspace_char r \<Longrightarrow> CHR '' '' \<in> set r \<Longrightarrow>
     gaps_have_space g (r @ x) = gaps_have_space Safe x"
proof (induction r arbitrary: g)
  case Nil
  then show ?case by simp
next
  case (Cons c r)
  show ?case
  proof (cases "c = CHR '' ''")
    case True
    with Cons.prems show ?thesis by (simp add: gaps_leading_whitespace)
  next
    case False
    with Cons.prems Cons.IH show ?thesis by auto
  qed
qed

lemma two_fields_line:
  assumes lit: "lit \<noteq> []" "list_all (\<lambda>c. \<not> isspace_char c) lit"
    and kind: "kind \<noteq> []" "list_all (\<lambda>c. \<not> isspace_char c) kind"
    and ws: "list_all isspace_char a" "list_all isspace_char sep" "list_all isspace_char b"
    and space: "CHR '' '' \<in> set sep"
  shows "space_separated (a @ lit @ sep @ kind @ b)"
    and "spec_fields (a @ lit @ sep @ kind @ b) = [lit, kind]"
proof -
  have "gaps_have_space Safe (a @ lit @ sep @ kind @ b) =
      gaps_have_space After_text (sep @ kind @ b)"
    using ws(1) lit by (simp add: gaps_leading_whitespace gaps_text)
  also have "\<dots> = gaps_have_space Safe (kind @ b)"
    using ws(2) space by (rule gaps_run_with_space)
  also have "\<dots> = gaps_have_space After_text b"
    using kind by (simp add: gaps_text)
  finally show "space_separated (a @ lit @ sep @ kind @ b)"
    using gaps_blank [OF ws(3)] by (simp add: space_separated_def)
  have sep: "sep @ kind @ b = [] \<or> isspace_char (hd (sep @ kind @ b))"
    using ws(2) space by (cases sep) auto
  have b: "b = [] \<or> isspace_char (hd b)"
    using ws(3) by (cases b) auto
  have "spec_fields (a @ lit @ (sep @ kind @ b)) = lit # spec_fields (sep @ kind @ b)"
    using ws(1) lit sep by (rule spec_fields_first)
  moreover have "spec_fields (sep @ kind @ b) = kind # spec_fields b"
    using ws(2) kind b by (rule spec_fields_first)
  ultimately show "spec_fields (a @ lit @ sep @ kind @ b) = [lit, kind]"
    using spec_fields_blank [OF ws(3)] by simp
qed

text \<open>
  C6, as stated, fails at two inputs. The line \<^verbatim>\<open>a<TAB>b\<close> holds one literal and one
  kind separated by whitespace, and construction raises \<^verbatim>\<open>ValueError\<close>: the code cuts
  the line with \<^verbatim>\<open>split(" ")\<close>, although its filter \<^verbatim>\<open>not x.isspace()\<close> and its
  \<^verbatim>\<open>x.strip()\<close> of every piece treat all other whitespace as separating, so this is a
  defect of the code. In the three lines \<^verbatim>\<open>a b\<close>, an empty line, \<^verbatim>\<open>c d\<close>, every line
  that is not blank has two fields, and construction raises \<^verbatim>\<open>ValueError\<close> for the empty
  line, as the docstring of \<^verbatim>\<open>__init__\<close> announces for a line that is not of the form
  \<^verbatim>\<open>SYMBOL TOKEN\<close>.
\<close>

theorem tab_separated_line_rejected:
  "spec_fields [CHR ''a'', CHR 0x09, CHR ''b''] = [''a'', ''b'']
   \<and> SymbolMatcher_init (Some [CHR ''a'', CHR 0x09, CHR ''b'']) =
       Inl (ValueError [CHR ''a'', CHR 0x09, CHR ''b''])
   \<and> splitlines (''a b'' @ [CHR 0x0A, CHR 0x0A] @ ''c d'') = [''a b'', [], ''c d'']
   \<and> SymbolMatcher_init (Some (''a b'' @ [CHR 0x0A, CHR 0x0A] @ ''c d'')) =
       Inl (ValueError [])"
  by (simp add: spec_fields_def SymbolMatcher_init_def splitlines_def is_linebreak_def
      line_split_def strip_def isspace_def isspace_char_def split_on_eval
      del: split_on.simps(2))

text \<open>
  C6, amended. Take a specification in which every line is space separated: every run of
  whitespace between two fields contains a space character (lines whose fields are
  separated by whitespace without a space are left out of the statement). With the fields
  of a line being its maximal runs of characters that are not whitespace: construction
  fails exactly when some line, blank or not, does not have two fields, and then with
  \<^verbatim>\<open>ValueError\<close> for such a line; when every line has two fields, the result holds the
  pair of the two fields of each line, in the order of the lines. A blank line is space
  separated and has no field. A line that holds a literal and a kind, separated by a run
  of whitespace that contains a space character, tabs or not, with any whitespace around
  them, is space separated and has the two fields literal and kind.
\<close>

theorem symbol_specification_space_separated:
  "((\<forall>l \<in> set (splitlines s). space_separated l) \<longrightarrow>
      ((\<exists>e. SymbolMatcher_init (Some s) = Inl e) =
         (\<exists>l \<in> set (splitlines s). length (spec_fields l) \<noteq> 2))
      \<and> (\<forall>e. SymbolMatcher_init (Some s) = Inl e \<longrightarrow>
            (\<exists>l \<in> set (splitlines s). length (spec_fields l) \<noteq> 2 \<and> e = ValueError l))
      \<and> ((\<forall>l \<in> set (splitlines s). length (spec_fields l) = 2) \<longrightarrow>
            SymbolMatcher_init (Some s) =
              Inr \<lparr>symbols = map (\<lambda>l. \<lparr>symbol = spec_fields l ! 0, token = spec_fields l ! 1\<rparr>)
                                 (splitlines s)\<rparr>))
   \<and> (list_all isspace_char l \<longrightarrow> space_separated l \<and> spec_fields l = [])
   \<and> (lit \<noteq> [] \<and> kind \<noteq> [] \<and>
       list_all (\<lambda>c. \<not> isspace_char c) lit \<and> list_all (\<lambda>c. \<not> isspace_char c) kind \<and>
       list_all isspace_char a \<and> list_all isspace_char sep \<and> list_all isspace_char b \<and>
       CHR '' '' \<in> set sep \<longrightarrow>
         space_separated (a @ lit @ sep @ kind @ b) \<and>
         spec_fields (a @ lit @ sep @ kind @ b) = [lit, kind])"
proof (intro conjI impI)
  let ?bad = "\<lambda>l. length (line_split l) \<noteq> 2"
  let ?mk = "\<lambda>l. \<lparr>symbol = line_split l ! 0, token = line_split l ! 1\<rparr>"
  assume dom: "\<forall>l \<in> set (splitlines s). space_separated l"
  then have same: "\<And>l. l \<in> set (splitlines s) \<Longrightarrow> line_split l = spec_fields l"
    by (simp add: line_split_spec_fields)
  have empty: "splitlines [] = []"
    by (simp add: splitlines_def)
  have init: "SymbolMatcher_init (Some s) =
      (case find ?bad (splitlines s) of
         Some l \<Rightarrow> Inl (ValueError l)
       | None \<Rightarrow> Inr \<lparr>symbols = map ?mk (splitlines s)\<rparr>)"
    using empty by (simp add: SymbolMatcher_init_def add_lines_eq split: option.splits)
  have found: "l' \<in> set (splitlines s) \<and> length (spec_fields l') \<noteq> 2"
    if "find ?bad (splitlines s) = Some l'" for l'
  proof -
    from that have "l' \<in> set (splitlines s)" "?bad l'"
      by (auto simp: find_Some_iff)
    with same show ?thesis by simp
  qed
  have none: "\<forall>l \<in> set (splitlines s). length (spec_fields l) = 2"
    if "find ?bad (splitlines s) = None"
    using that same by (simp add: find_None_iff)
  have pairs: "map ?mk (splitlines s) =
      map (\<lambda>l. \<lparr>symbol = spec_fields l ! 0, token = spec_fields l ! 1\<rparr>) (splitlines s)"
    using same by simp
  show "(\<exists>e. SymbolMatcher_init (Some s) = Inl e) =
      (\<exists>l \<in> set (splitlines s). length (spec_fields l) \<noteq> 2)"
  proof (cases "find ?bad (splitlines s)")
    case None
    with init have "SymbolMatcher_init (Some s) = Inr \<lparr>symbols = map ?mk (splitlines s)\<rparr>"
      by simp
    moreover from none [OF None]
    have "\<not> (\<exists>l \<in> set (splitlines s). length (spec_fields l) \<noteq> 2)"
      by simp
    ultimately show ?thesis by simp
  next
    case (Some l')
    with init have "SymbolMatcher_init (Some s) = Inl (ValueError l')"
      by simp
    moreover from found [OF Some]
    have "\<exists>l \<in> set (splitlines s). length (spec_fields l) \<noteq> 2"
      by blast
    ultimately show ?thesis by simp
  qed
  show "\<forall>e. SymbolMatcher_init (Some s) = Inl e \<longrightarrow>
      (\<exists>l \<in> set (splitlines s). length (spec_fields l) \<noteq> 2 \<and> e = ValueError l)"
  proof (cases "find ?bad (splitlines s)")
    case None
    with init have "SymbolMatcher_init (Some s) = Inr \<lparr>symbols = map ?mk (splitlines s)\<rparr>"
      by simp
    then show ?thesis by simp
  next
    case (Some l')
    with init have "SymbolMatcher_init (Some s) = Inl (ValueError l')"
      by simp
    with found [OF Some] show ?thesis by auto
  qed
  show "SymbolMatcher_init (Some s) =
      Inr \<lparr>symbols = map (\<lambda>l. \<lparr>symbol = spec_fields l ! 0, token = spec_fields l ! 1\<rparr>)
                         (splitlines s)\<rparr>"
    if "\<forall>l \<in> set (splitlines s). length (spec_fields l) = 2"
  proof -
    from that same have "find ?bad (splitlines s) = None"
      by (simp add: find_None_iff)
    with init pairs show ?thesis by simp
  qed
next
  assume "list_all isspace_char l"
  then show "space_separated l" "spec_fields l = []"
    by (simp_all add: space_separated_def gaps_blank spec_fields_blank)
next
  assume shape: "lit \<noteq> [] \<and> kind \<noteq> [] \<and>
       list_all (\<lambda>c. \<not> isspace_char c) lit \<and> list_all (\<lambda>c. \<not> isspace_char c) kind \<and>
       list_all isspace_char a \<and> list_all isspace_char sep \<and> list_all isspace_char b \<and>
       CHR '' '' \<in> set sep"
  then show "space_separated (a @ lit @ sep @ kind @ b)"
    by (intro two_fields_line(1)) simp_all
  from shape show "spec_fields (a @ lit @ sep @ kind @ b) = [lit, kind]"
    by (intro two_fields_line(2)) simp_all
qed

theorem symbol_specification_space_separated_witness:
  "SymbolMatcher_init (Some ('' ?   SYMB_TERNARY'' @ [CHR 0x0A] @ '':'' @ [CHR 0x09, CHR '' ''] @
       ''SYMB_COLON  '')) =
     Inr \<lparr>symbols = [\<lparr>symbol = ''?'', token = ''SYMB_TERNARY''\<rparr>,
                     \<lparr>symbol = '':'', token = ''SYMB_COLON''\<rparr>]\<rparr>
   \<and> (\<exists>e. SymbolMatcher_init (Some (''a b'' @ [CHR 0x0A, CHR 0x0A] @ ''c d'')) = Inl e)
   \<and> space_separated [CHR 0x09, CHR '' ''] \<and> spec_fields [CHR 0x09, CHR '' ''] = []
   \<and> space_separated ([CHR 0x09] @ ''!='' @ [CHR 0x09, CHR '' '', CHR 0x09] @ ''SYMB_XOR'' @ '' '')
   \<and> spec_fields ([CHR 0x09] @ ''!='' @ [CHR 0x09, CHR '' '', CHR 0x09] @ ''SYMB_XOR'' @ '' '') =
       [''!='', ''SYMB_XOR'']"
proof -
  let ?good = "'' ?   SYMB_TERNARY'' @ [CHR 0x0A] @ '':'' @ [CHR 0x09, CHR '' ''] @ ''SYMB_COLON  ''"
  let ?blank = "''a b'' @ [CHR 0x0A, CHR 0x0A] @ ''c d''"
  note defs = splitlines_def is_linebreak_def space_separated_def spec_fields_def
    isspace_char_def
  note good = symbol_specification_space_separated [of ?good "[CHR 0x09, CHR '' '']" "''!=''"
      "''SYMB_XOR''" "[CHR 0x09]" "[CHR 0x09, CHR '' '', CHR 0x09]" "'' ''"]
  note blank = symbol_specification_space_separated [of ?blank "[CHR 0x09, CHR '' '']" "''!=''"
      "''SYMB_XOR''" "[CHR 0x09]" "[CHR 0x09, CHR '' '', CHR 0x09]" "'' ''"]
  have good_dom: "\<forall>l \<in> set (splitlines ?good). space_separated l"
    by (simp add: defs)
  have good_two: "\<forall>l \<in> set (splitlines ?good). length (spec_fields l) = 2"
    by (simp add: defs)
  have "SymbolMatcher_init (Some ?good) =
      Inr \<lparr>symbols = map (\<lambda>l. \<lparr>symbol = spec_fields l ! 0, token = spec_fields l ! 1\<rparr>)
                         (splitlines ?good)\<rparr>"
    using good [THEN conjunct1, THEN mp, OF good_dom, THEN conjunct2, THEN conjunct2] good_two
    by (rule mp)
  then have 1: "SymbolMatcher_init (Some ?good) =
     Inr \<lparr>symbols = [\<lparr>symbol = ''?'', token = ''SYMB_TERNARY''\<rparr>,
                     \<lparr>symbol = '':'', token = ''SYMB_COLON''\<rparr>]\<rparr>"
    by (simp add: defs)
  have blank_dom: "\<forall>l \<in> set (splitlines ?blank). space_separated l"
    by (simp add: defs)
  have blank_line: "\<exists>l \<in> set (splitlines ?blank). length (spec_fields l) \<noteq> 2"
    by (simp add: defs)
  have 2: "\<exists>e. SymbolMatcher_init (Some ?blank) = Inl e"
    using blank [THEN conjunct1, THEN mp, OF blank_dom, THEN conjunct1] blank_line
    by (rule iffD2)
  have ws: "list_all isspace_char [CHR 0x09, CHR '' '']"
    by (simp add: isspace_char_def)
  have 3: "space_separated [CHR 0x09, CHR '' ''] \<and> spec_fields [CHR 0x09, CHR '' ''] = []"
    using good [THEN conjunct2, THEN conjunct1] ws by (rule mp)
  have shape: "''!='' \<noteq> [] \<and> ''SYMB_XOR'' \<noteq> [] \<and>
       list_all (\<lambda>c. \<not> isspace_char c) ''!='' \<and>
       list_all (\<lambda>c. \<not> isspace_char c) ''SYMB_XOR'' \<and>
       list_all isspace_char [CHR 0x09] \<and>
       list_all isspace_char [CHR 0x09, CHR '' '', CHR 0x09] \<and>
       list_all isspace_char '' '' \<and>
       CHR '' '' \<in> set [CHR 0x09, CHR '' '', CHR 0x09]"
    by (simp add: isspace_char_def)
  have 4: "space_separated ([CHR 0x09] @ ''!='' @ [CHR 0x09, CHR '' '', CHR 0x09] @
        ''SYMB_XOR'' @ '' '') \<and>
      spec_fields ([CHR 0x09] @ ''!='' @ [CHR 0x09, CHR '' '', CHR 0x09] @ ''SYMB_XOR'' @ '' '') =
        [''!='', ''SYMB_XOR'']"
    using good [THEN conjunct2, THEN conjunct2] shape by (rule mp)
  from 1 2 3 4 show ?thesis by simp
qed

subsection \<open>The scanner\<close>

lemma while_loop_iterations:
  "iterations n self line_no line st = Some st' \<Longrightarrow>
     while_loop self line_no line st = while_loop self line_no line st'"
proof (induction n arbitrary: st)
  case 0
  then show ?case by simp
next
  case (Suc n)
  from Suc.prems obtain st1 where cond: "fst st < int (length line)"
    and body: "loop_body self line_no line st = Next st1"
    and rest: "iterations n self line_no line st1 = Some st'"
    by (auto split: if_splits flow.splits)
  have "while_loop self line_no line st = while_loop self line_no line st1"
    using cond body by (subst while_loop.simps) simp
  with Suc.IH [OF rest] show ?case by simp
qed

lemma no_match_unchanged:
  "fst (fst (TokenMatcher_match_token m stream)) = None \<Longrightarrow>
     snd (TokenMatcher_match_token m stream) = m"
  by (cases m)
    (auto simp: CommentMatcher_match_token_def split: if_splits option.splits)

lemma match_first_none:
  "\<forall>a \<in> set reg. fst (fst (TokenMatcher_match_token (store a) stream)) = None \<Longrightarrow>
     match_first reg store stream = ((None, - 1), store)"
proof (induction reg)
  case Nil
  then show ?case by simp
next
  case (Cons a reg)
  obtain r width m where tm: "TokenMatcher_match_token (store a) stream = ((r, width), m)"
    by (metis surj_pair)
  from Cons.prems have "fst (fst (TokenMatcher_match_token (store a) stream)) = None"
    by simp
  with tm no_match_unchanged [of "store a" stream] have "r = None" "m = store a"
    by simp_all
  with tm Cons show ?case by simp
qed

lemma for_lines_append:
  "for_lines self k (before @ rest) w out =
     (case for_lines self k before w out of
        None \<Rightarrow> None
      | Some (Inl e) \<Rightarrow> Some (Inl e)
      | Some (Inr (w1, out1)) \<Rightarrow> for_lines self (k + int (length before)) rest w1 out1)"
proof (induction before arbitrary: k w out)
  case Nil
  then show ?case by simp
next
  case (Cons line before)
  show ?case
  proof (cases "while_loop self k line (0, w, out)")
    case None
    then show ?thesis by simp
  next
    case (Some r)
    then show ?thesis
    proof (cases r)
      case (Inl e)
      with Some show ?thesis by simp
    next
      case (Inr st)
      obtain p w' out' where "st = (p, w', out')" by (cases st) auto
      with Some Inr Cons.IH [of "k + 1" w' out'] show ?thesis
        by (simp add: add.assoc split: option.splits sum.splits)
    qed
  qed
qed

lemma emitted_in_line_step:
  assumes "fst st < int (length line)" and "loop_body self line_no line st = Next st1"
    and "emitted_in_line self line_no line st1 t"
  shows "emitted_in_line self line_no line st t"
proof -
  from assms(3) obtain n st' line_pos w' where
    "iterations n self line_no line st1 = Some st'" "fst st' < int (length line)"
    "loop_body self line_no line st' = Next (line_pos, w', snd (snd st') @ [t])"
    unfolding emitted_in_line_def by blast
  moreover from this(1) assms(1,2) have "iterations (Suc n) self line_no line st = Some st'"
    by simp
  ultimately show ?thesis unfolding emitted_in_line_def by blast
qed

lemma loop_body_Next:
  assumes "loop_body self line_no line (line_pos, w, output) = Next st1"
  shows "\<exists>tok width w'.
     FloatingTokenizer_match_token (tokenizer self)
       (slice_from line (line_pos + whitespace_end (slice_from line line_pos))) w =
         ((Some tok, width), w') \<and>
     st1 = (line_pos + whitespace_end (slice_from line line_pos) + width, w',
            output @ [\<lparr>ftoken = tok,
                        line_info = \<lparr>line_number = line_no,
                          line_start = line_pos + whitespace_end (slice_from line line_pos),
                          line_end = Some (line_pos + whitespace_end (slice_from line line_pos)
                                             + width)\<rparr>\<rparr>])"
  using assms
  by (auto simp: loop_body_def Let_def split: if_splits prod.splits option.splits)

lemma while_loop_output:
  "while_loop self line_no line st = Some r \<Longrightarrow>
     (\<forall>line_pos w' output'. r = Inr (line_pos, w', output') \<longrightarrow>
        (\<exists>new. output' = snd (snd st) @ new \<and>
           (\<forall>t \<in> set new. emitted_in_line self line_no line st t)))"
proof (induction rule: while_loop.raw_induct [rotated 1, consumes 1, case_names body])
  case (body while_loop' self line_no line st r)
  note 1 = body
  show ?case
  proof (cases "fst st < int (length line)")
    case False
    with 1(2) have "r = Inr st" by simp
    then show ?thesis by auto
  next
    case True
    show ?thesis
    proof (cases "loop_body self line_no line st")
      case (Break st')
      obtain line_pos w outp where st: "st = (line_pos, w, outp)" by (cases st) auto
      from Break st have "snd st' = snd st"
        by (auto simp: loop_body_def Let_def split: if_splits prod.splits option.splits)
      moreover from 1(2) True Break have "r = Inr st'" by simp
      ultimately have "\<forall>line_pos w' output'. r = Inr (line_pos, w', output') \<longrightarrow>
          output' = snd (snd st) @ [] \<and>
          (\<forall>t \<in> set []. emitted_in_line self line_no line st t)"
        using st by auto
      then show ?thesis by blast
    next
      case (Raise e)
      with 1(2) True have "r = Inl e" by simp
      then show ?thesis by simp
    next
      case (Next st1)
      obtain line_pos w outp where st: "st = (line_pos, w, outp)" by (cases st) auto
      from loop_body_Next [OF Next [unfolded st]] obtain t line_pos1 w1 where
        st1: "st1 = (line_pos1, w1, outp @ [t])"
        by blast
      have first: "emitted_in_line self line_no line st t"
        unfolding emitted_in_line_def
        apply (rule exI [of _ 0], rule exI [of _ st])
        apply (rule exI [of _ line_pos1], rule exI [of _ w1])
        using True Next st st1 by simp
      from 1(2) True Next have call: "while_loop' self line_no line st1 = Some r" by simp
      show ?thesis
      proof (intro allI impI)
        fix line_pos' w' output'
        assume r: "r = Inr (line_pos', w', output')"
        with 1(1) [OF call] obtain new where
          new: "output' = snd (snd st1) @ new"
          "\<forall>t \<in> set new. emitted_in_line self line_no line st1 t"
          by blast
        have "output' = snd (snd st) @ (t # new)"
          using new(1) st st1 by simp
        moreover have "\<forall>u \<in> set (t # new). emitted_in_line self line_no line st u"
          using first new(2) emitted_in_line_step [OF True Next] by auto
        ultimately show "\<exists>new. output' = snd (snd st) @ new \<and>
           (\<forall>t \<in> set new. emitted_in_line self line_no line st t)"
          by blast
      qed
    qed
  qed
qed

lemma match_first_some:
  "match_first reg store stream = ((Some tok, width), store') \<Longrightarrow>
     \<exists>a \<in> set reg. fst (TokenMatcher_match_token (store a) stream) = (Some tok, width)"
proof (induction reg)
  case Nil
  then show ?case by simp
next
  case (Cons a reg)
  obtain r width' m where tm: "TokenMatcher_match_token (store a) stream = ((r, width'), m)"
    by (metis surj_pair)
  show ?case
  proof (cases r)
    case None
    with tm no_match_unchanged [of "store a" stream] have "m = store a" by simp
    with tm None Cons.prems have "match_first reg store stream = ((Some tok, width), store')"
      by simp
    from Cons.IH [OF this] show ?thesis by auto
  next
    case (Some tok')
    with tm Cons.prems have "tok' = tok" "width' = width" by simp_all
    with tm Some show ?thesis by simp
  qed
qed

lemma for_lines_output:
  "for_lines self k ls w out = Some (Inr (w', out')) \<Longrightarrow>
     \<exists>new. out' = out @ new \<and>
       (\<forall>t \<in> set new. \<exists>j w1 out1. j < length ls \<and>
           for_lines self k (take j ls) w out = Some (Inr (w1, out1)) \<and>
           emitted_in_line self (k + int j) (ls ! j) (0, w1, out1) t)"
proof (induction ls arbitrary: k w out)
  case Nil
  then show ?case by simp
next
  case (Cons line ls)
  from Cons.prems obtain p wa outa where
    first: "while_loop self k line (0, w, out) = Some (Inr (p, wa, outa))"
    and rest: "for_lines self (k + 1) ls wa outa = Some (Inr (w', out'))"
    by (auto split: option.splits sum.splits)
  from while_loop_output [OF first] obtain new1 where
    new1: "outa = out @ new1" "\<forall>t \<in> set new1. emitted_in_line self k line (0, w, out) t"
    by auto
  from Cons.IH [OF rest] obtain new2 where
    new2: "out' = outa @ new2"
    "\<forall>t \<in> set new2. \<exists>j w1 out1. j < length ls \<and>
        for_lines self (k + 1) (take j ls) wa outa = Some (Inr (w1, out1)) \<and>
        emitted_in_line self (k + 1 + int j) (ls ! j) (0, w1, out1) t"
    by blast
  have "out' = out @ (new1 @ new2)"
    using new1(1) new2(1) by simp
  moreover have "\<exists>j w1 out1. j < length (line # ls) \<and>
        for_lines self k (take j (line # ls)) w out = Some (Inr (w1, out1)) \<and>
        emitted_in_line self (k + int j) ((line # ls) ! j) (0, w1, out1) t"
    if "t \<in> set (new1 @ new2)" for t
  proof (cases "t \<in> set new1")
    case True
    with new1(2) have "emitted_in_line self (k + int 0) ((line # ls) ! 0) (0, w, out) t"
      by simp
    moreover have "for_lines self k (take 0 (line # ls)) w out = Some (Inr (w, out))"
      by simp
    ultimately show ?thesis by (metis length_greater_0_conv list.distinct(1))
  next
    case False
    with that have "t \<in> set new2" by simp
    with new2(2) obtain j w1 out1 where j: "j < length ls"
      "for_lines self (k + 1) (take j ls) wa outa = Some (Inr (w1, out1))"
      "emitted_in_line self (k + 1 + int j) (ls ! j) (0, w1, out1) t"
      by blast
    have "for_lines self k (take (Suc j) (line # ls)) w out = Some (Inr (w1, out1))"
      using first j(2) by simp
    moreover have "emitted_in_line self (k + int (Suc j)) ((line # ls) ! Suc j) (0, w1, out1) t"
      using j(3) by (simp add: ac_simps)
    moreover have "Suc j < length (line # ls)"
      using j(1) by simp
    ultimately show ?thesis by blast
  qed
  ultimately show ?case by blast
qed

text \<open>
  C8. Let the scan have got to the head of the \<^verbatim>\<open>while\<close> loop in some line, with the
  earlier lines scanned without failure, at a position inside the line; let \<open>cursor\<close> be
  that position after the whitespace has been skipped, not the end of the line; and let no
  registered matcher match the text from \<open>cursor\<close>. Then the scan raises
  \<^verbatim>\<open>BadTokenException\<close> with the number of the line, counted from 0, the cursor and the
  text of the line, and so returns no tokens. The witness is the scan of \<^verbatim>\<open>@@@\<close>, which
  fails at line 0, column 0, and a scan that fails in its second line.
\<close>

theorem unmatched_input_raises:
  assumes lines: "splitlines stream = before @ line # after"
    and earlier: "for_lines self 0 before w [] = Some (Inr (w1, out1))"
    and reach: "iterations n self (int (length before)) line (0, w1, out1) = Some (pos, w2, out2)"
    and inside: "pos < int (length line)"
    and cursor: "cursor = pos + whitespace_end (slice_from line pos)"
    and not_end: "cursor \<noteq> int (length line)"
    and no_match: "\<forall>a \<in> set (matchers (tokenizer self) w2).
        fst (fst (TokenMatcher_match_token (objs w2 a) (slice_from line cursor))) = None"
  shows "match_tokens self stream w =
           Some (Inl (BadTokenException (int (length before)) cursor line))"
proof -
  let ?k = "int (length before)"
  from no_match have "match_first (matchers (tokenizer self) w2) (objs w2) (slice_from line cursor) =
      ((None, - 1), objs w2)"
    by (rule match_first_none)
  then have body: "loop_body self ?k line (pos, w2, out2) =
      Raise (BadTokenException ?k cursor line)"
    using cursor not_end by (simp add: loop_body_def FloatingTokenizer_match_token_def Let_def)
  have "while_loop self ?k line (0, w1, out1) = while_loop self ?k line (pos, w2, out2)"
    using reach by (rule while_loop_iterations)
  also have "\<dots> = Some (Inl (BadTokenException ?k cursor line))"
    using inside body by (subst while_loop.simps) simp
  finally have "for_lines self ?k (line # after) w1 out1 =
      Some (Inl (BadTokenException ?k cursor line))"
    by simp
  then show ?thesis
    using lines earlier by (simp add: match_tokens_def for_lines_append)
qed

theorem unmatched_input_raises_witness:
  "match_tokens demo_tokenizer ''@@@'' demo_world = Some (Inl (BadTokenException 0 0 ''@@@''))
   \<and> match_tokens demo_tokenizer ('';'' @ [CHR 0x0A] @ ''; @@'') demo_world =
       Some (Inl (BadTokenException 1 2 ''; @@''))"
proof -
  have lines1: "splitlines ''@@@'' = [] @ ''@@@'' # []"
    by (simp add: splitlines_def is_linebreak_def)
  have earlier1: "for_lines demo_tokenizer 0 [] demo_world [] = Some (Inr (demo_world, []))"
    by simp
  have reach1: "iterations 0 demo_tokenizer (int (length ([] :: string list))) ''@@@''
      (0, demo_world, []) = Some (0, demo_world, [])"
    by simp
  have cursor1: "(0 :: int) = 0 + whitespace_end (slice_from ''@@@'' 0)"
    by (simp add: whitespace_end_def slice_from_def isspace_char_def)
  have no_match1: "\<forall>a \<in> set (matchers (tokenizer demo_tokenizer) demo_world).
      fst (fst (TokenMatcher_match_token (objs demo_world a) (slice_from ''@@@'' 0))) = None"
    by (simp add: scan_defs demo_defs)
  have first: "match_tokens demo_tokenizer ''@@@'' demo_world =
      Some (Inl (BadTokenException (int (length ([] :: string list))) 0 ''@@@''))"
    by (rule unmatched_input_raises [OF lines1 earlier1 reach1 _ cursor1 _ no_match1]) simp_all
  let ?tok = "\<lparr>ftoken = \<lparr>token_id = ''SYMB_SEMICOLON'', text_value = Some '';''\<rparr>,
                  line_info = \<lparr>line_number = 0, line_start = 0, line_end = Some 1\<rparr>\<rparr>"
  let ?tok1 = "\<lparr>ftoken = \<lparr>token_id = ''SYMB_SEMICOLON'', text_value = Some '';''\<rparr>,
                  line_info = \<lparr>line_number = 1, line_start = 0, line_end = Some 1\<rparr>\<rparr>"
  have lines2: "splitlines ('';'' @ [CHR 0x0A] @ ''; @@'') = ['';''] @ ''; @@'' # []"
    by (simp add: splitlines_def is_linebreak_def)
  have earlier2: "for_lines demo_tokenizer 0 ['';''] demo_world [] =
      Some (Inr (demo_world, [?tok]))"
    by (simp add: scan_defs demo_defs)
  have reach2: "iterations 1 demo_tokenizer (int (length ['';''])) ''; @@''
      (0, demo_world, [?tok]) = Some (1, demo_world, [?tok, ?tok1])"
    by (simp add: scan_defs demo_defs)
  have cursor2: "(2 :: int) = 1 + whitespace_end (slice_from ''; @@'' 1)"
    by (simp add: whitespace_end_def slice_from_def isspace_char_def)
  have no_match2: "\<forall>a \<in> set (matchers (tokenizer demo_tokenizer) demo_world).
      fst (fst (TokenMatcher_match_token (objs demo_world a) (slice_from ''; @@'' 2))) = None"
    by (simp add: scan_defs demo_defs)
  have second: "match_tokens demo_tokenizer ('';'' @ [CHR 0x0A] @ ''; @@'') demo_world =
      Some (Inl (BadTokenException (int (length ['';''])) 2 ''; @@''))"
    by (rule unmatched_input_raises [OF lines2 earlier2 reach2 _ cursor2 _ no_match2]) simp_all
  from first second show ?thesis by simp
qed

text \<open>
  C9. Every token \<open>t\<close> of the list that a scan returns was appended by a run of the loop
  body in some line \<open>j\<close>: the scan got to the head of the loop at \<open>line_pos\<close> in that
  line, \<open>cursor\<close> is that position after the whitespace has been skipped, the dispatcher,
  called on the text from \<open>cursor\<close>, returned the token \<open>tok\<close> and the width \<open>width\<close>
  that a registered matcher returned, and \<open>t\<close> is \<open>tok\<close> with the position
  \<open>(j, cursor, cursor + width)\<close>, so that its end minus its start is \<open>width\<close>.
\<close>

theorem token_position_is_cursor_and_width:
  assumes scan: "match_tokens self stream w = Some (Inr (w', output))"
    and emitted: "t \<in> set output"
  shows "\<exists>j w1 out1 n line_pos w2 out2 cursor tok width w3 a.
      j < length (splitlines stream) \<and>
      for_lines self 0 (take j (splitlines stream)) w [] = Some (Inr (w1, out1)) \<and>
      iterations n self (int j) (splitlines stream ! j) (0, w1, out1) =
        Some (line_pos, w2, out2) \<and>
      line_pos < int (length (splitlines stream ! j)) \<and>
      cursor = line_pos + whitespace_end (slice_from (splitlines stream ! j) line_pos) \<and>
      FloatingTokenizer_match_token (tokenizer self)
        (slice_from (splitlines stream ! j) cursor) w2 = ((Some tok, width), w3) \<and>
      a \<in> set (matchers (tokenizer self) w2) \<and>
      fst (TokenMatcher_match_token (objs w2 a) (slice_from (splitlines stream ! j) cursor)) =
        (Some tok, width) \<and>
      t = \<lparr>ftoken = tok,
           line_info = \<lparr>line_number = int j, line_start = cursor,
                        line_end = Some (cursor + width)\<rparr>\<rparr> \<and>
      line_end (line_info t) = Some (line_start (line_info t) + width)"
proof -
  let ?ls = "splitlines stream"
  from scan have "for_lines self 0 ?ls w [] = Some (Inr (w', output))"
    by (simp add: match_tokens_def)
  from for_lines_output [OF this] emitted obtain j w1 out1 where j: "j < length ?ls"
    "for_lines self 0 (take j ?ls) w [] = Some (Inr (w1, out1))"
    "emitted_in_line self (int j) (?ls ! j) (0, w1, out1) t"
    by auto
  from j(3) obtain n st p3 w3 where st: "iterations n self (int j) (?ls ! j) (0, w1, out1) = Some st"
    "fst st < int (length (?ls ! j))"
    "loop_body self (int j) (?ls ! j) st = Next (p3, w3, snd (snd st) @ [t])"
    unfolding emitted_in_line_def by blast
  obtain line_pos w2 out2 where st_eq: "st = (line_pos, w2, out2)" by (cases st) auto
  define cursor where "cursor = line_pos + whitespace_end (slice_from (?ls ! j) line_pos)"
  from loop_body_Next [OF st(3) [unfolded st_eq]] obtain tok width w3' where
    m: "FloatingTokenizer_match_token (tokenizer self) (slice_from (?ls ! j) cursor) w2 =
         ((Some tok, width), w3')"
    and t: "t = \<lparr>ftoken = tok,
           line_info = \<lparr>line_number = int j, line_start = cursor,
                        line_end = Some (cursor + width)\<rparr>\<rparr>"
    unfolding cursor_def by auto
  from m obtain store' where
    "match_first (matchers (tokenizer self) w2) (objs w2) (slice_from (?ls ! j) cursor) =
       ((Some tok, width), store')"
    by (auto simp: FloatingTokenizer_match_token_def split: prod.splits)
  from match_first_some [OF this] obtain a where a: "a \<in> set (matchers (tokenizer self) w2)"
    "fst (TokenMatcher_match_token (objs w2 a) (slice_from (?ls ! j) cursor)) = (Some tok, width)"
    by blast
  have "line_end (line_info t) = Some (line_start (line_info t) + width)"
    using t by simp
  with j(1,2) st(1,2) st_eq cursor_def m a t show ?thesis
    by (simp only: fst_conv) blast
qed

theorem token_position_is_cursor_and_width_witness:
  "match_tokens demo_tokenizer ''  ;'' demo_world =
     Some (Inr (demo_world,
        [\<lparr>ftoken = \<lparr>token_id = ''SYMB_SEMICOLON'', text_value = Some '';''\<rparr>,
          line_info = \<lparr>line_number = 0, line_start = 2, line_end = Some 3\<rparr>\<rparr>]))
   \<and> (\<exists>j w1 out1 n line_pos w2 out2 cursor tok width w3 a.
      j < length (splitlines ''  ;'') \<and>
      for_lines demo_tokenizer 0 (take j (splitlines ''  ;'')) demo_world [] = Some (Inr (w1, out1)) \<and>
      iterations n demo_tokenizer (int j) (splitlines ''  ;'' ! j) (0, w1, out1) =
        Some (line_pos, w2, out2) \<and>
      line_pos < int (length (splitlines ''  ;'' ! j)) \<and>
      cursor = line_pos + whitespace_end (slice_from (splitlines ''  ;'' ! j) line_pos) \<and>
      FloatingTokenizer_match_token (tokenizer demo_tokenizer)
        (slice_from (splitlines ''  ;'' ! j) cursor) w2 = ((Some tok, width), w3) \<and>
      a \<in> set (matchers (tokenizer demo_tokenizer) w2) \<and>
      fst (TokenMatcher_match_token (objs w2 a) (slice_from (splitlines ''  ;'' ! j) cursor)) =
        (Some tok, width) \<and>
      \<lparr>ftoken = \<lparr>token_id = ''SYMB_SEMICOLON'', text_value = Some '';''\<rparr>,
          line_info = \<lparr>line_number = 0, line_start = 2, line_end = Some 3\<rparr>\<rparr> = \<lparr>ftoken = tok,
           line_info = \<lparr>line_number = int j, line_start = cursor,
                        line_end = Some (cursor + width)\<rparr>\<rparr> \<and>
      line_end (line_info \<lparr>ftoken = \<lparr>token_id = ''SYMB_SEMICOLON'', text_value = Some '';''\<rparr>,
          line_info = \<lparr>line_number = 0, line_start = 2, line_end = Some 3\<rparr>\<rparr>) = Some (line_start (line_info \<lparr>ftoken = \<lparr>token_id = ''SYMB_SEMICOLON'', text_value = Some '';''\<rparr>,
          line_info = \<lparr>line_number = 0, line_start = 2, line_end = Some 3\<rparr>\<rparr>) + width))"
proof -
  let ?tok = "\<lparr>ftoken = \<lparr>token_id = ''SYMB_SEMICOLON'', text_value = Some '';''\<rparr>,
          line_info = \<lparr>line_number = 0, line_start = 2, line_end = Some 3\<rparr>\<rparr>"
  have scan: "match_tokens demo_tokenizer ''  ;'' demo_world = Some (Inr (demo_world, [?tok]))"
    by (simp add: scan_defs demo_defs)
  have emitted: "?tok \<in> set [?tok]"
    by simp
  from scan token_position_is_cursor_and_width [OF scan emitted] show ?thesis
    by (rule conjI)
qed

end
